theory Spec2Isabelle
  imports Complex_Main
begin

section \<open>CuraBot: crisis detector and alert dispatcher\<close>

text \<open>
  A shallow embedding of \<^verbatim>\<open>MentalHealth_API/src/crisis/detector.py\<close> and of
  \<^verbatim>\<open>MentalHealth_API/src/alerts/{sms,telegram,dispatcher}.py\<close>.

  Conventions of the embedding:
  \<^item> A Python \<^verbatim>\<open>str\<close> is a \<^typ>\<open>string\<close>, read as the UTF-8 bytes of the text. The
    operations the code applies (\<^verbatim>\<open>lower\<close>, \<^verbatim>\<open>split\<close>, \<^verbatim>\<open>startswith\<close>, \<^verbatim>\<open>join\<close>) are
    modelled on the ASCII range, where they act on single bytes; characters outside
    ASCII are carried through unchanged (Unicode case mapping and Unicode white space
    are outside the model).
  \<^item> A Python \<^verbatim>\<open>float\<close> is a \<^typ>\<open>real\<close> on the grid of IEEE 754 doubles, and every
    arithmetic operation rounds its exact result onto that grid; infinities and NaN,
    hence overflowing runs, are outside the model.
  \<^item> An exception is a value of type \<open>error\<close>; a computation that may raise returns
    \<open>error + 'a\<close>, with \<open>Inl\<close> for the exception. Every \<^verbatim>\<open>try/except\<close> of the source is
    a case distinction on that sum.
\<close>

subsection \<open>Exceptions\<close>

datatype error =
    ValueError | AttributeError | KeyError | TypeError | OSError | JSONDecodeError
  | UnboundLocalError | ProviderError | TransportError | DivideByZero

subsection \<open>Strings\<close>

text \<open>\<^verbatim>\<open>str.lower()\<close> on ASCII: the 26 capital letters are mapped, everything else stays.\<close>

definition lower_char :: "char \<Rightarrow> char" where
  "lower_char c =
     (case map_of (zip ''ABCDEFGHIJKLMNOPQRSTUVWXYZ'' ''abcdefghijklmnopqrstuvwxyz'') c of
        Some l \<Rightarrow> l
      | None \<Rightarrow> c)"

definition py_lower :: "string \<Rightarrow> string" where
  "py_lower s = map lower_char s"

text \<open>\<^verbatim>\<open>s.startswith(p)\<close>.\<close>

fun startswith :: "string \<Rightarrow> string \<Rightarrow> bool" where
  "startswith s [] = True"
| "startswith [] (p # ps) = False"
| "startswith (c # cs) (p # ps) = (c = p \<and> startswith cs ps)"

text \<open>
  \<^verbatim>\<open>re.search(pattern, text)\<close> for a pattern without regular-expression metacharacters
  (all ten configured patterns consist of letters and spaces only): the pattern occurs
  somewhere in the text. The result is the truth value of the match object.
\<close>

fun re_search :: "string \<Rightarrow> string \<Rightarrow> bool" where
  "re_search pattern [] = (pattern = [])"
| "re_search pattern (c # cs) = (startswith (c # cs) pattern \<or> re_search pattern cs)"

text \<open>The white space of \<^verbatim>\<open>str.split()\<close> within ASCII: TAB, LF, VT, FF, CR, FS, GS, RS, US, SPACE.\<close>

definition isspace :: "char \<Rightarrow> bool" where
  "isspace c = (c \<in> set [CHR 0x09, CHR 0x0A, CHR 0x0B, CHR 0x0C, CHR 0x0D,
                          CHR 0x1C, CHR 0x1D, CHR 0x1E, CHR 0x1F, CHR 0x20])"

text \<open>
  \<^verbatim>\<open>text.split()\<close>: maximal runs of non-space characters, in order; no empty words.
  \<open>split_from w cs\<close> scans \<open>cs\<close> with \<open>w\<close> the word read so far.
\<close>

fun split_from :: "string \<Rightarrow> string \<Rightarrow> string list" where
  "split_from w [] = (if w = [] then [] else [w])"
| "split_from w (c # cs) =
     (if isspace c then (if w = [] then split_from [] cs else w # split_from [] cs)
      else split_from (w @ [c]) cs)"

definition py_split :: "string \<Rightarrow> string list" where
  "py_split text = split_from [] text"

text \<open>\<^verbatim>\<open>" ".join(ws)\<close>.\<close>

fun py_join :: "string list \<Rightarrow> string" where
  "py_join [] = []"
| "py_join [w] = w"
| "py_join (w # v # ws) = w @ '' '' @ py_join (v # ws)"

subsection \<open>Slices and ranges\<close>

text \<open>
  \<^verbatim>\<open>xs[i:j]\<close>: a negative bound counts from the end, and both bounds are clamped to
  \<open>0 .. len(xs)\<close>; an empty interval gives the empty list.
\<close>

definition slice_bound :: "int \<Rightarrow> int \<Rightarrow> int" where
  "slice_bound n k = (if k < 0 then max 0 (k + n) else min k n)"

definition py_slice :: "'a list \<Rightarrow> int \<Rightarrow> int \<Rightarrow> 'a list" where
  "py_slice xs i j =
     (let n = int (length xs); lo = slice_bound n i; hi = slice_bound n j
      in take (nat (hi - lo)) (drop (nat lo) xs))"

text \<open>
  \<^verbatim>\<open>range(start, stop, step)\<close> as the list of its values; \<^verbatim>\<open>step == 0\<close> raises
  \<^verbatim>\<open>ValueError\<close>. The number of values is the one CPython computes.
\<close>

definition py_range :: "int \<Rightarrow> int \<Rightarrow> int \<Rightarrow> error + int list" where
  "py_range start stop step =
     (if step = 0 then Inl ValueError
      else if 0 < step then
        Inr (map (\<lambda>k. start + int k * step) [0..<nat ((stop - start + step - 1) div step)])
      else
        Inr (map (\<lambda>k. start + int k * step) [0..<nat ((start - stop - step - 1) div (- step))]))"

subsection \<open>\<^verbatim>\<open>CrisisDetector._chunk_text\<close>\<close>

text \<open>
  The body of the \<^verbatim>\<open>for i in range(0, len(words), step)\<close> loop, over the values of the
  range: the chunk of the window at \<open>i\<close> is appended, and the loop is left (\<^verbatim>\<open>break\<close>)
  once \<open>i + window_size \<ge> len(words)\<close>.
\<close>

fun chunk_loop :: "string list \<Rightarrow> int \<Rightarrow> int list \<Rightarrow> string list" where
  "chunk_loop words window_size [] = []"
| "chunk_loop words window_size (i # is) =
     py_join (py_slice words i (i + window_size))
       # (if int (length words) \<le> i + window_size then []
          else chunk_loop words window_size is)"

definition chunk_text :: "string \<Rightarrow> int \<Rightarrow> int \<Rightarrow> error + string list" where
  "chunk_text text window_size step =
     (let words = py_split text
      in if int (length words) \<le> window_size then Inr [text]
         else (case py_range 0 (int (length words)) step of
                 Inl e \<Rightarrow> Inl e
               | Inr is \<Rightarrow> Inr (chunk_loop words window_size is)))"

subsection \<open>Vectors in double precision\<close>

type_synonym vec = "real list"

text \<open>
  The vectors hold Python floats, and numpy computes in IEEE 754 binary64. A finite
  double is a real number on a grid: 53 significant bits, the spacing never below
  \<open>2 powi (-1074)\<close> (the subnormal range). Every arithmetic operation gives the grid
  point nearest to the exact result, a tie going to the even neighbour. Results beyond
  the largest finite double (the infinities and NaN of an overflowing run) are not
  represented: the definitions describe the runs in which nothing overflows.

  \<open>round_half_even\<close> rounds a real to the nearest integer, ties to even;
  \<open>ulp_exponent x\<close> is the exponent of the grid spacing at \<open>x\<close>;
  \<open>to_double\<close> is the rounding onto the grid.
\<close>

definition round_half_even :: "real \<Rightarrow> int" where
  "round_half_even x =
     (let f = \<lfloor>x\<rfloor>; r = x - of_int f
      in if r < 1 / 2 then f
         else if 1 / 2 < r then f + 1
         else if even f then f else f + 1)"

definition ulp_exponent :: "real \<Rightarrow> int" where
  "ulp_exponent x = max (\<lfloor>log 2 \<bar>x\<bar>\<rfloor> - 52) (- 1074)"

definition to_double :: "real \<Rightarrow> real" where
  "to_double x =
     (if x = 0 then 0
      else of_int (round_half_even (x / 2 powi ulp_exponent x)) * 2 powi ulp_exponent x)"

text \<open>Sum, product and square root of doubles.\<close>

definition double_add :: "real \<Rightarrow> real \<Rightarrow> real" where
  "double_add x y = to_double (x + y)"

definition double_mul :: "real \<Rightarrow> real \<Rightarrow> real" where
  "double_mul x y = to_double (x * y)"

definition double_sqrt :: "real \<Rightarrow> real" where
  "double_sqrt x = to_double (sqrt x)"

text \<open>
  The sum of products behind \<^verbatim>\<open>np.dot\<close>, accumulated from left to right (the order and
  the fusing of operations are the choice of the BLAS routine behind numpy; no theorem
  depends on them, and in the vectors evaluated in this theory every product and sum is
  exact).
\<close>

definition dot_sum :: "vec \<Rightarrow> vec \<Rightarrow> real" where
  "dot_sum a b = foldl (\<lambda>acc (x, y). double_add acc (double_mul x y)) 0 (zip a b)"

text \<open>
  \<^verbatim>\<open>np.linalg.norm(v)\<close> of a one-dimensional vector: numpy computes \<^verbatim>\<open>sqrt(v.dot(v))\<close>.
\<close>

definition linalg_norm :: "vec \<Rightarrow> real" where
  "linalg_norm v = double_sqrt (dot_sum v v)"

text \<open>\<^verbatim>\<open>np.dot(a, b)\<close> of two one-dimensional vectors; different lengths raise \<^verbatim>\<open>ValueError\<close>.\<close>

definition np_dot :: "vec \<Rightarrow> vec \<Rightarrow> error + real" where
  "np_dot a b = (if length a \<noteq> length b then Inl ValueError else Inr (dot_sum a b))"

text \<open>
  The division of line 160. A zero divisor is made an outcome of its own,
  \<open>DivideByZero\<close> (numpy reports it as a warning with an infinite or undefined value),
  so that its absence can be stated.
\<close>

definition np_divide :: "real \<Rightarrow> real \<Rightarrow> error + real" where
  "np_divide x y = (if y = 0 then Inl DivideByZero else Inr (to_double (x / y)))"

text \<open>\<^verbatim>\<open>np.dot(user_vector, phrase_vec) / (user_norm * phrase_norm)\<close>.\<close>

definition cosine_score :: "vec \<Rightarrow> real \<Rightarrow> vec \<Rightarrow> real \<Rightarrow> error + real" where
  "cosine_score user_vector user_norm phrase_vec phrase_norm =
     (case np_dot user_vector phrase_vec of
        Inl e \<Rightarrow> Inl e
      | Inr d \<Rightarrow> np_divide d (double_mul user_norm phrase_norm))"

subsection \<open>\<^verbatim>\<open>CrisisDetector\<close>\<close>

text \<open>
  The embedding provider is its \<^verbatim>\<open>embed_query\<close>: \<open>None\<close> when the call raises.
  \<^verbatim>\<open>phrase_embeddings\<close> is dynamically typed in the source: \<^verbatim>\<open>detect\<close> reads it as a list
  of vectors (its annotation), \<^verbatim>\<open>_load_from_cache\<close> stores whatever JSON value the cache
  file holds. The record is therefore polymorphic in that field.
  \<^verbatim>\<open>crisis_keywords\<close> is assigned once in \<^verbatim>\<open>__init__\<close> and never again: it is a constant.
\<close>

type_synonym embed_query = "string \<Rightarrow> vec option"

record 'e detector =
  semantic_phrases :: "string list"
  embeddings_model :: "embed_query option"
  phrase_embeddings :: 'e

definition crisis_keywords :: "string list" where
  "crisis_keywords =
     [''kill myself'', ''suicid'', ''end my life'', ''want to die'', ''hurt myself'',
      ''slit my wrist'', ''overdose'', ''no reason to live'', ''better off dead'', ''I quit'']"

definition semantic_phrases_init :: "string list" where
  "semantic_phrases_init =
     [''I don'' @ [CHR 0x27] @ ''t want to live anymore'',
      ''The pain is too much to bear, I want out'',
      ''I'' @ [CHR 0x27] @ ''m planning to end it all'',
      ''Goodbye everyone, I'' @ [CHR 0x27] @ ''m done'',
      ''There is no hope for me'',
      ''I am going to jump off a bridge'',
      ''I have a gun and I'' @ [CHR 0x27] @ ''m going to use it'']"

text \<open>
  \<^verbatim>\<open>__init__\<close>: the state right after construction. The reference vectors are filled in
  later by the background initialisation.
\<close>

definition CrisisDetector :: "embed_query option \<Rightarrow> (vec list) detector" where
  "CrisisDetector embeddings_model_arg =
     \<lparr>semantic_phrases = semantic_phrases_init,
      embeddings_model = embeddings_model_arg,
      phrase_embeddings = []\<rparr>"

definition lexical_reason :: string where
  "lexical_reason = ''User is expressing suicidal thoughts or self-harm intent''"

definition semantic_reason :: string where
  "semantic_reason = ''User content indicates severe distress or crisis intent''"

definition threshold :: real where
  "threshold = 85 / 100"

text \<open>
  The inner loop, lines 156 to 163, over \<^verbatim>\<open>zip(phrase_embeddings, semantic_phrases)\<close>; the
  state is \<^verbatim>\<open>(max_score_overall, best_phrase)\<close>.
\<close>

fun phrase_loop :: "vec \<Rightarrow> real \<Rightarrow> (vec \<times> string) list \<Rightarrow> real \<times> string \<Rightarrow> error + real \<times> string" where
  "phrase_loop user_vector user_norm [] st = Inr st"
| "phrase_loop user_vector user_norm ((phrase_vec, phrase_text) # rest) (max_score_overall, best_phrase) =
     (let phrase_norm = linalg_norm phrase_vec
      in if phrase_norm = 0 then phrase_loop user_vector user_norm rest (max_score_overall, best_phrase)
         else (case cosine_score user_vector user_norm phrase_vec phrase_norm of
                 Inl e \<Rightarrow> Inl e
               | Inr score \<Rightarrow>
                   if score > max_score_overall
                   then phrase_loop user_vector user_norm rest (score, phrase_text)
                   else phrase_loop user_vector user_norm rest (max_score_overall, best_phrase)))"

text \<open>The outer loop, lines 149 to 163, over the chunks.\<close>

fun chunk_scan :: "embed_query \<Rightarrow> (vec \<times> string) list \<Rightarrow> string list \<Rightarrow> real \<times> string \<Rightarrow> error + real \<times> string" where
  "chunk_scan emb refs [] st = Inr st"
| "chunk_scan emb refs (chunk # chunks) st =
     (case emb chunk of
        None \<Rightarrow> Inl ProviderError
      | Some user_vector \<Rightarrow>
          (let user_norm = linalg_norm user_vector
           in if user_norm = 0 then chunk_scan emb refs chunks st
              else (case phrase_loop user_vector user_norm refs st of
                      Inl e \<Rightarrow> Inl e
                    | Inr st' \<Rightarrow> chunk_scan emb refs chunks st')))"

text \<open>
  The body of the \<^verbatim>\<open>try\<close>, lines 144 to 168: \<open>Inl\<close> when it raises, \<open>Inr (Some r)\<close> when it
  returns \<open>r\<close>, \<open>Inr None\<close> when it falls through. \<^verbatim>\<open>threshold\<close> is assigned inside the
  loop, so reading it after a loop over no chunk raises \<^verbatim>\<open>UnboundLocalError\<close>.
\<close>

definition semantic_try :: "embed_query \<Rightarrow> (vec list) detector \<Rightarrow> string \<Rightarrow> error + (bool \<times> string) option" where
  "semantic_try emb D text =
     (case chunk_text text 15 10 of
        Inl e \<Rightarrow> Inl e
      | Inr chunks \<Rightarrow>
          (case chunk_scan emb (zip (phrase_embeddings D) (semantic_phrases D)) chunks (0, '''') of
             Inl e \<Rightarrow> Inl e
           | Inr (max_score_overall, best_phrase) \<Rightarrow>
               if chunks = [] then Inl UnboundLocalError
               else if max_score_overall > threshold then Inr (Some (True, semantic_reason))
               else Inr None))"

text \<open>\<^verbatim>\<open>detect\<close>: \<open>Inl\<close> would be an exception leaving the method.\<close>

definition detect :: "(vec list) detector \<Rightarrow> string \<Rightarrow> error + bool \<times> string" where
  "detect D text =
     (let text_lower = py_lower text
      in if list_ex (\<lambda>pattern. re_search pattern text_lower) crisis_keywords
         then Inr (True, lexical_reason)
         else (case embeddings_model D of
                 None \<Rightarrow> Inr (False, '''')
               | Some emb \<Rightarrow>
                   if phrase_embeddings D = [] then Inr (False, '''')
                   else (case semantic_try emb D text of
                           Inl e \<Rightarrow> Inr (False, '''')
                         | Inr (Some r) \<Rightarrow> Inr r
                         | Inr None \<Rightarrow> Inr (False, ''''))))"

subsection \<open>The reading of the claims\<close>

text \<open>
  The text contains the pattern when both are compared without regard to case
  (the wording of the first testable property).
\<close>

definition contains_ignoring_case :: "string \<Rightarrow> string \<Rightarrow> bool" where
  "contains_ignoring_case text pattern = re_search (py_lower pattern) (py_lower text)"

text \<open>
  The semantic pass as section 4.2, step 3 words it: a chunk whose embedding fails and a
  comparison that fails are skipped, and the scan goes on.
\<close>

fun phrase_loop_skipping :: "vec \<Rightarrow> real \<Rightarrow> (vec \<times> string) list \<Rightarrow> real \<times> string \<Rightarrow> real \<times> string" where
  "phrase_loop_skipping user_vector user_norm [] st = st"
| "phrase_loop_skipping user_vector user_norm ((phrase_vec, phrase_text) # rest) (max_score_overall, best_phrase) =
     (let phrase_norm = linalg_norm phrase_vec
      in if phrase_norm = 0
         then phrase_loop_skipping user_vector user_norm rest (max_score_overall, best_phrase)
         else (case cosine_score user_vector user_norm phrase_vec phrase_norm of
                 Inl e \<Rightarrow> phrase_loop_skipping user_vector user_norm rest (max_score_overall, best_phrase)
               | Inr score \<Rightarrow>
                   if score > max_score_overall
                   then phrase_loop_skipping user_vector user_norm rest (score, phrase_text)
                   else phrase_loop_skipping user_vector user_norm rest (max_score_overall, best_phrase)))"

fun chunk_scan_skipping :: "embed_query \<Rightarrow> (vec \<times> string) list \<Rightarrow> string list \<Rightarrow> real \<times> string \<Rightarrow> real \<times> string" where
  "chunk_scan_skipping emb refs [] st = st"
| "chunk_scan_skipping emb refs (chunk # chunks) st =
     (case emb chunk of
        None \<Rightarrow> chunk_scan_skipping emb refs chunks st
      | Some user_vector \<Rightarrow>
          (let user_norm = linalg_norm user_vector
           in if user_norm = 0 then chunk_scan_skipping emb refs chunks st
              else chunk_scan_skipping emb refs chunks
                     (phrase_loop_skipping user_vector user_norm refs st)))"

definition detect_skipping :: "(vec list) detector \<Rightarrow> string \<Rightarrow> error + bool \<times> string" where
  "detect_skipping D text =
     (if list_ex (\<lambda>pattern. re_search pattern (py_lower text)) crisis_keywords
      then Inr (True, lexical_reason)
      else (case embeddings_model D of
              None \<Rightarrow> Inr (False, '''')
            | Some emb \<Rightarrow>
                if phrase_embeddings D = [] then Inr (False, '''')
                else (case chunk_text text 15 10 of
                        Inl e \<Rightarrow> Inr (False, '''')
                      | Inr chunks \<Rightarrow>
                          if fst (chunk_scan_skipping emb
                                    (zip (phrase_embeddings D) (semantic_phrases D)) chunks (0, ''''))
                               > threshold
                          then Inr (True, semantic_reason)
                          else Inr (False, ''''))))"

text \<open>A chunk on which the scan of the source raises: its embedding fails, or it has a
  non-zero vector that meets a non-zero reference vector of another length.\<close>

definition chunk_fails :: "embed_query \<Rightarrow> (vec \<times> string) list \<Rightarrow> string \<Rightarrow> bool" where
  "chunk_fails emb refs chunk =
     (case emb chunk of
        None \<Rightarrow> True
      | Some user_vector \<Rightarrow>
          linalg_norm user_vector \<noteq> 0
          \<and> list_ex (\<lambda>(phrase_vec, phrase_text).
                linalg_norm phrase_vec \<noteq> 0 \<and> length phrase_vec \<noteq> length user_vector) refs)"

definition zero_norm_chunk :: "embed_query \<Rightarrow> string \<Rightarrow> bool" where
  "zero_norm_chunk emb chunk =
     (case emb chunk of None \<Rightarrow> False | Some user_vector \<Rightarrow> linalg_norm user_vector = 0)"

subsection \<open>The embedding cache\<close>















subsection \<open>Alert providers\<close>

text \<open>
  A payload is a dict from strings to strings or \<^verbatim>\<open>None\<close>, written as the source writes
  its dict literals; \<^verbatim>\<open>data.get(k)\<close> is \<^verbatim>\<open>None\<close> for a missing key.
  \<^verbatim>\<open>os.getenv\<close> is a function from names to optional strings.
\<close>

type_synonym payload = "(string \<times> string option) list"

type_synonym env = "string \<Rightarrow> string option"

definition payload_get :: "payload \<Rightarrow> string \<Rightarrow> string option" where
  "payload_get data k = (case map_of data k of None \<Rightarrow> None | Some v \<Rightarrow> v)"

text \<open>Truth value of an optional string: \<^verbatim>\<open>None\<close> and \<^verbatim>\<open>""\<close> are false.\<close>

definition truthy :: "string option \<Rightarrow> bool" where
  "truthy s = (case s of None \<Rightarrow> False | Some v \<Rightarrow> v \<noteq> [])"

text \<open>An optional string inside an f-string.\<close>

definition py_str :: "string option \<Rightarrow> string" where
  "py_str s = (case s of None \<Rightarrow> ''None'' | Some v \<Rightarrow> v)"

record twilio =
  account_sid :: "string option"
  auth_token :: "string option"
  messaging_service_sid :: "string option"

definition TwilioProvider :: "env \<Rightarrow> twilio" where
  "TwilioProvider getenv =
     \<lparr>account_sid = getenv ''TWILIO_ACCOUNT_SID'',
      auth_token = getenv ''TWILIO_AUTH_TOKEN'',
      messaging_service_sid = getenv ''TWILIO_MESSAGING_SERVICE_SID''\<rparr>"

text \<open>
  The Twilio client is external: \<^verbatim>\<open>Client(sid, token).messages.create(...)\<close> takes the
  request and gives the message SID or raises.
\<close>

record sms_request =
  client_sid :: "string option"
  client_token :: "string option"
  service_sid :: "string option"
  body :: "string option"
  to :: string

type_synonym twilio_api = "sms_request \<Rightarrow> error + string"

text \<open>
  The body of the \<^verbatim>\<open>try\<close> of \<^verbatim>\<open>TwilioProvider.send_alert\<close>. \<^verbatim>\<open>phone_number.startswith\<close>
  raises \<^verbatim>\<open>AttributeError\<close> when the number is \<^verbatim>\<open>None\<close>.
\<close>

definition twilio_try :: "twilio \<Rightarrow> twilio_api \<Rightarrow> string option \<Rightarrow> string option \<Rightarrow> error + bool" where
  "twilio_try P api phone_number message_body =
     (case phone_number of
        None \<Rightarrow> Inl AttributeError
      | Some number \<Rightarrow>
          (case api \<lparr>client_sid = account_sid P, client_token = auth_token P,
                     service_sid = messaging_service_sid P, body = message_body,
                     to = (if \<not> startswith number ''+'' then ''+91'' @ number else number)\<rparr> of
             Inl e \<Rightarrow> Inl e
           | Inr sid \<Rightarrow> Inr True))"

definition twilio_send_alert :: "twilio \<Rightarrow> twilio_api \<Rightarrow> payload \<Rightarrow> error + bool" where
  "twilio_send_alert P api data =
     (let phone_number = payload_get data ''phone_number'';
          message_body = payload_get data ''message''
      in if \<not> truthy (account_sid P) \<or> \<not> truthy (auth_token P) then Inr False
         else (case twilio_try P api phone_number message_body of
                 Inl e \<Rightarrow> Inr False
               | Inr b \<Rightarrow> Inr b))"

record telegram =
  bot_token :: "string option"
  chat_id :: "string option"
  base_url :: string

definition TelegramProvider :: "env \<Rightarrow> telegram" where
  "TelegramProvider getenv =
     \<lparr>bot_token = getenv ''TELEGRAM_BOT_TOKEN'',
      chat_id = getenv ''TELEGRAM_CHAT_ID'',
      base_url = ''https://api.telegram.org/bot'' @ py_str (getenv ''TELEGRAM_BOT_TOKEN'')
                   @ ''/sendMessage''\<rparr>"

text \<open>\<^verbatim>\<open>requests.post(url, json=payload)\<close> is external: a response or an exception.\<close>

record response =
  status_code :: int
  response_text :: string

type_synonym http_post = "string \<Rightarrow> payload \<Rightarrow> error + response"

definition telegram_try :: "telegram \<Rightarrow> http_post \<Rightarrow> string option \<Rightarrow> error + bool" where
  "telegram_try T post message =
     (let payload = [(''chat_id'', chat_id T), (''text'', message), (''parse_mode'', Some ''Markdown'')]
      in case post (base_url T) payload of
           Inl e \<Rightarrow> Inl e
         | Inr response \<Rightarrow> if status_code response = 200 then Inr True else Inr False)"

definition telegram_send_alert :: "telegram \<Rightarrow> http_post \<Rightarrow> payload \<Rightarrow> error + bool" where
  "telegram_send_alert T post data =
     (let message = payload_get data ''message''
      in if \<not> truthy (bot_token T) \<or> \<not> truthy (chat_id T) then Inr False
         else (case telegram_try T post message of
                 Inl e \<Rightarrow> Inr False
               | Inr b \<Rightarrow> Inr b))"

subsection \<open>\<^verbatim>\<open>AlertDispatcher\<close>\<close>

text \<open>
  The dispatcher holds two provider objects, of which it uses the \<^verbatim>\<open>send_alert\<close> method
  only, and the helpline number. A run of \<^verbatim>\<open>trigger_alert\<close> is described by the calls it
  makes, in order, each with its payload and what the call gave, and by the critical
  log line.
\<close>

record dispatcher =
  sms_provider :: "payload \<Rightarrow> error + bool"
  telegram_provider :: "payload \<Rightarrow> error + bool"
  helpline_number :: "string option"

definition AlertDispatcher :: "env \<Rightarrow> twilio_api \<Rightarrow> http_post \<Rightarrow> dispatcher" where
  "AlertDispatcher getenv api post =
     \<lparr>sms_provider = twilio_send_alert (TwilioProvider getenv) api,
      telegram_provider = telegram_send_alert (TelegramProvider getenv) post,
      helpline_number = getenv ''HELPLINE_PHONE_NUMBER''\<rparr>"

datatype event =
    SmsSendAlert payload "error + bool"
  | TelegramSendAlert payload "error + bool"
  | LogCritical

definition sms_message :: "string \<Rightarrow> string \<Rightarrow> string \<Rightarrow> string \<Rightarrow> string" where
  "sms_message user_name reason location short_message =
     ''CRISIS ALERT: User '' @ user_name @ '' at '' @ location @ ''. Reason: '' @ reason
       @ ''. Msg: '' @ short_message"

text \<open>The emoji of the Telegram message, as UTF-8.\<close>

definition emoji_rotating_light :: string where
  "emoji_rotating_light = [CHR 0xF0, CHR 0x9F, CHR 0x9A, CHR 0xA8]"

definition emoji_bust :: string where
  "emoji_bust = [CHR 0xF0, CHR 0x9F, CHR 0x91, CHR 0xA4]"

definition emoji_pin :: string where
  "emoji_pin = [CHR 0xF0, CHR 0x9F, CHR 0x93, CHR 0x8D]"

definition emoji_warning :: string where
  "emoji_warning = [CHR 0xE2, CHR 0x9A, CHR 0xA0, CHR 0xEF, CHR 0xB8, CHR 0x8F]"

definition emoji_speech :: string where
  "emoji_speech = [CHR 0xF0, CHR 0x9F, CHR 0x92, CHR 0xAC]"

definition telegram_message :: "string \<Rightarrow> string \<Rightarrow> string \<Rightarrow> string \<Rightarrow> string" where
  "telegram_message user_name reason location short_message =
     emoji_rotating_light @ '' *CRISIS DETECTED* '' @ emoji_rotating_light @ [CHR 0x0A, CHR 0x0A]
       @ emoji_bust @ '' *User:* '' @ user_name @ [CHR 0x0A]
       @ emoji_pin @ '' *Location:* '' @ location @ [CHR 0x0A]
       @ emoji_warning @ '' *Reason:* '' @ reason @ [CHR 0x0A]
       @ emoji_speech @ '' *Message:* '' @ short_message @ [CHR 0x0A, CHR 0x0A]
       @ ''Please take immediate action.''"

definition sms_data :: "dispatcher \<Rightarrow> string \<Rightarrow> string \<Rightarrow> string \<Rightarrow> string \<Rightarrow> payload" where
  "sms_data D user_name reason location short_message =
     [(''phone_number'', helpline_number D),
      (''message'', Some (sms_message user_name reason location short_message))]"

definition telegram_data :: "string \<Rightarrow> string \<Rightarrow> string \<Rightarrow> string \<Rightarrow> payload" where
  "telegram_data user_name reason location short_message =
     [(''message'', Some (telegram_message user_name reason location short_message))]"

text \<open>
  Step 2 of \<^verbatim>\<open>trigger_alert\<close>, lines 59 to 69, after the events \<open>tr\<close> of step 1.
\<close>

definition telegram_step :: "dispatcher \<Rightarrow> payload \<Rightarrow> event list \<Rightarrow> bool \<Rightarrow> event list \<times> (error + unit)" where
  "telegram_step D tdata tr sms_success =
     (if \<not> sms_success then
        (case telegram_provider D tdata of
           Inl e \<Rightarrow> (tr @ [TelegramSendAlert tdata (Inl e)], Inl e)
         | Inr telegram_success \<Rightarrow>
             (tr @ [TelegramSendAlert tdata (Inr telegram_success)]
                 @ (if \<not> telegram_success then [LogCritical] else []),
              Inr ()))
      else (tr, Inr ()))"

text \<open>
  \<^verbatim>\<open>trigger_alert\<close>: the events, and \<open>Inr ()\<close> when it returns or \<open>Inl\<close> when an exception
  of a provider passes through it (it has no handler of its own).
\<close>

definition trigger_alert ::
    "dispatcher \<Rightarrow> string \<Rightarrow> string \<Rightarrow> string \<Rightarrow> string \<Rightarrow> event list \<times> (error + unit)" where
  "trigger_alert D user_name reason location short_message =
     (let sdata = sms_data D user_name reason location short_message;
          tdata = telegram_data user_name reason location short_message
      in if truthy (helpline_number D) then
           (case sms_provider D sdata of
              Inl e \<Rightarrow> ([SmsSendAlert sdata (Inl e)], Inl e)
            | Inr sms_success \<Rightarrow>
                telegram_step D tdata [SmsSendAlert sdata (Inr sms_success)] sms_success)
         else telegram_step D tdata [] False)"

text \<open>What a run shows: the calls made and the success reported.\<close>

definition sms_attempted :: "event list \<Rightarrow> bool" where
  "sms_attempted tr = list_ex (\<lambda>ev. case ev of SmsSendAlert d r \<Rightarrow> True | _ \<Rightarrow> False) tr"

definition sms_reported_success :: "event list \<Rightarrow> bool" where
  "sms_reported_success tr =
     list_ex (\<lambda>ev. case ev of SmsSendAlert d r \<Rightarrow> r = Inr True | _ \<Rightarrow> False) tr"

definition telegram_invoked :: "event list \<Rightarrow> bool" where
  "telegram_invoked tr = list_ex (\<lambda>ev. case ev of TelegramSendAlert d r \<Rightarrow> True | _ \<Rightarrow> False) tr"

subsection \<open>Derived notions and inputs used in the theorems\<close>

text \<open>The lexical pass of \<^verbatim>\<open>detect\<close>, lines 136 to 139, finds a pattern.\<close>

definition lexical_match :: "string \<Rightarrow> bool" where
  "lexical_match text = list_ex (\<lambda>pattern. re_search pattern (py_lower text)) crisis_keywords"

text \<open>The semantic pass of \<^verbatim>\<open>detect\<close> is entered and an exception is raised inside it.\<close>

definition semantic_pass_raises :: "(vec list) detector \<Rightarrow> string \<Rightarrow> bool" where
  "semantic_pass_raises D text =
     (case embeddings_model D of
        None \<Rightarrow> False
      | Some emb \<Rightarrow>
          phrase_embeddings D \<noteq> []
          \<and> (case chunk_text text 15 10 of
                Inl e \<Rightarrow> True
              | Inr chunks \<Rightarrow>
                  list_ex (chunk_fails emb (zip (phrase_embeddings D) (semantic_phrases D))) chunks))"

text \<open>
  A message of sixteen words, hence of two chunks, and a provider that embeds the first
  chunk next to the reference vector and raises on every other text.
\<close>

definition long_text :: string where
  "long_text = ''a a a a a a a a a a a a a a a a''"

definition flaky_embed :: embed_query where
  "flaky_embed chunk = (if chunk = ''a a a a a a a a a a a a a a a'' then Some [1, 0] else None)"

definition flaky_detector :: "(vec list) detector" where
  "flaky_detector =
     \<lparr>semantic_phrases = [''Mock phrase''],
      embeddings_model = Some flaky_embed,
      phrase_embeddings = [[1, 0]]\<rparr>"

text \<open>
  Two environments: nothing set, and every variable of the alert channels set; a Twilio
  client that accepts every message, and transports that always raise.
\<close>

definition empty_env :: env where
  "empty_env name = None"

definition configured_env :: env where
  "configured_env name =
     (if name = ''HELPLINE_PHONE_NUMBER'' then Some ''1234567890''
      else if name \<in> set [''TWILIO_ACCOUNT_SID'', ''TWILIO_AUTH_TOKEN'',
                             ''TWILIO_MESSAGING_SERVICE_SID'', ''TELEGRAM_BOT_TOKEN'',
                             ''TELEGRAM_CHAT_ID'']
      then Some ''secret''
      else None)"

definition accepting_api :: twilio_api where
  "accepting_api request = Inr ''SM1''"

definition failing_api :: twilio_api where
  "failing_api request = Inl TransportError"

definition failing_post :: http_post where
  "failing_post url payload = Inl TransportError"



section \<open>Chunking\<close>

lemma split_from_words:
  "\<forall>c\<in>set w. \<not> isspace c \<Longrightarrow> v \<in> set (split_from w cs) \<Longrightarrow> v \<noteq> [] \<and> (\<forall>c\<in>set v. \<not> isspace c)"
proof (induction cs arbitrary: w)
  case Nil
  then show ?case by (auto split: if_splits)
next
  case (Cons c cs)
  show ?case
  proof (cases "isspace c")
    case True
    with Cons.prems have "v = w \<and> w \<noteq> [] \<or> v \<in> set (split_from [] cs)"
      by (auto split: if_splits)
    then show ?thesis
      using Cons.IH [of "[]"] Cons.prems(1) by auto
  next
    case False
    with Cons.prems have "v \<in> set (split_from (w @ [c]) cs)" by simp
    moreover have "\<forall>d\<in>set (w @ [c]). \<not> isspace d"
      using Cons.prems(1) False by simp
    ultimately show ?thesis using Cons.IH by blast
  qed
qed

lemma py_split_words:
  "v \<in> set (py_split text) \<Longrightarrow> v \<noteq> [] \<and> (\<forall>c\<in>set v. \<not> isspace c)"
  unfolding py_split_def using split_from_words [of "[]" v "text"] by simp

lemma split_from_word:
  "\<forall>c\<in>set v. \<not> isspace c \<Longrightarrow> split_from w (v @ cs) = split_from (w @ v) cs"
  by (induction v arbitrary: w) simp_all

lemma isspace_space: "isspace CHR '' ''"
  by (simp add: isspace_def)

lemma split_join:
  "\<forall>v\<in>set ws. v \<noteq> [] \<and> (\<forall>c\<in>set v. \<not> isspace c) \<Longrightarrow> py_split (py_join ws) = ws"
proof (induction ws rule: py_join.induct)
  case 1
  then show ?case by (simp add: py_split_def)
next
  case (2 w)
  then have "split_from [] (w @ []) = split_from ([] @ w) []"
    by (intro split_from_word) simp
  with 2 show ?case by (simp add: py_split_def)
next
  case (3 w v ws)
  have w: "\<forall>c\<in>set w. \<not> isspace c" and "w \<noteq> []" using 3 by simp_all
  have "split_from [] (w @ '' '' @ py_join (v # ws)) = split_from ([] @ w) ('' '' @ py_join (v # ws))"
    using w by (rule split_from_word)
  also have "\<dots> = w # split_from [] (py_join (v # ws))"
    using \<open>w \<noteq> []\<close> isspace_space by simp
  also have "split_from [] (py_join (v # ws)) = v # ws"
    using 3 by (simp add: py_split_def)
  finally show ?case by (simp add: py_split_def)
qed

lemma py_slice_window:
  assumes "0 \<le> i" "i \<le> j" "j < int (length xs)" "j < i + w"
  shows "xs ! nat j \<in> set (py_slice xs i (i + w))"
proof -
  let ?n = "int (length xs)"
  have lo: "slice_bound ?n i = i" using assms by (simp add: slice_bound_def)
  have hi: "slice_bound ?n (i + w) = min (i + w) ?n" using assms by (simp add: slice_bound_def)
  let ?k = "nat (j - i)"
  have k: "?k < nat (min (i + w) ?n - i)" using assms by auto
  have len: "?k < length (drop (nat i) xs)" using assms by auto
  have "take (nat (min (i + w) ?n - i)) (drop (nat i) xs) ! ?k = drop (nat i) xs ! ?k"
    using k by simp
  also have "\<dots> = xs ! (nat i + ?k)" using assms by simp
  also have "nat i + ?k = nat j" using assms by auto
  finally have "take (nat (min (i + w) ?n - i)) (drop (nat i) xs) ! ?k = xs ! nat j" .
  moreover have "?k < length (take (nat (min (i + w) ?n - i)) (drop (nat i) xs))"
    using k len by simp
  ultimately have "xs ! nat j \<in> set (take (nat (min (i + w) ?n - i)) (drop (nat i) xs))"
    by (metis nth_mem)
  then show ?thesis by (simp add: py_slice_def Let_def lo hi)
qed

lemma py_slice_subset: "set (py_slice xs i j) \<subseteq> set xs"
  unfolding py_slice_def Let_def
  by (meson set_take_subset set_drop_subset subset_trans)

lemma py_slice_whole:
  "int (length xs) \<le> w \<Longrightarrow> py_slice xs 0 w = xs"
  by (simp add: py_slice_def slice_bound_def Let_def)

section \<open>Rounding to doubles\<close>

lemma round_half_even_ge_floor: "\<lfloor>x\<rfloor> \<le> round_half_even x"
  by (simp add: round_half_even_def Let_def)

lemma round_half_even_nearest:
  "of_int n - 1 / 2 < x \<Longrightarrow> x < of_int n + 1 / 2 \<Longrightarrow> round_half_even x = n"
proof -
  assume a: "of_int n - 1 / 2 < x" and b: "x < of_int n + 1 / 2"
  have "\<lfloor>x\<rfloor> = n \<or> \<lfloor>x\<rfloor> = n - 1"
  proof -
    have "of_int (n - 1) \<le> x" using a by simp
    then have "n - 1 \<le> \<lfloor>x\<rfloor>" by (simp add: le_floor_iff)
    moreover have "x < of_int n + 1" using b by simp
    then have "\<lfloor>x\<rfloor> \<le> n" by (simp add: floor_le_iff)
    ultimately show ?thesis by linarith
  qed
  then show ?thesis
  proof
    assume f: "\<lfloor>x\<rfloor> = n"
    then have "x - of_int n < 1 / 2" using b by simp
    then show ?thesis using f by (simp add: round_half_even_def Let_def)
  next
    assume f: "\<lfloor>x\<rfloor> = n - 1"
    then have "1 / 2 < x - of_int (n - 1)" using a by simp
    then show ?thesis using f by (simp add: round_half_even_def Let_def)
  qed
qed

lemma ulp_exponent_binade:
  assumes "2 powi k \<le> \<bar>x\<bar>" "\<bar>x\<bar> < 2 powi (k + 1)"
  shows "ulp_exponent x = max (k - 52) (- 1074)"
proof -
  have pos: "0 < \<bar>x\<bar>" using assms(1) by (smt (verit) zero_less_power_int)
  have "(2::real) powr of_int k = 2 powi k" "(2::real) powr of_int (k + 1) = 2 powi (k + 1)"
    by (rule powr_real_of_int'; simp)+
  then have "2 powr of_int k \<le> \<bar>x\<bar> \<and> \<bar>x\<bar> < 2 powr (of_int k + 1)"
    using assms by (simp add: add.commute)
  then have "\<lfloor>log 2 \<bar>x\<bar>\<rfloor> = k"
    using pos floor_log_eq_powr_iff [of "\<bar>x\<bar>" 2 k] by simp
  then show ?thesis by (simp add: ulp_exponent_def)
qed

lemma to_double_eval:
  assumes "2 powi k \<le> \<bar>x\<bar>" "\<bar>x\<bar> < 2 powi (k + 1)" "- 1022 \<le> k"
    and "of_int n - 1 / 2 < x / 2 powi (k - 52)" "x / 2 powi (k - 52) < of_int n + 1 / 2"
  shows "to_double x = of_int n * 2 powi (k - 52)"
proof -
  have e: "ulp_exponent x = k - 52"
    using ulp_exponent_binade [OF assms(1,2)] assms(3) by simp
  have "x \<noteq> 0" using assms(1) by (smt (verit) zero_less_power_int)
  then show ?thesis
    using round_half_even_nearest [OF assms(4,5)] by (simp add: to_double_def e)
qed

lemma to_double_zero: "to_double 0 = 0"
  by (simp add: to_double_def)

lemma to_double_1: "to_double 1 = 1"
  using to_double_eval [of 0 1 "2 ^ 52"] by (simp add: power_int_minus)

lemma round_half_even_mono_int: "of_int n \<le> x \<Longrightarrow> n \<le> round_half_even x"
proof -
  assume "of_int n \<le> x"
  then have "n \<le> \<lfloor>x\<rfloor>" by (simp add: le_floor_iff)
  then show ?thesis using round_half_even_ge_floor [of x] by linarith
qed

lemma ulp_exponent_ge: "- 1074 \<le> ulp_exponent x"
  by (simp add: ulp_exponent_def)

lemma binade:
  assumes "x \<noteq> 0"
  shows "2 powi \<lfloor>log 2 \<bar>x\<bar>\<rfloor> \<le> \<bar>x\<bar>" "\<bar>x\<bar> < 2 powi (\<lfloor>log 2 \<bar>x\<bar>\<rfloor> + 1)"
proof -
  let ?k = "\<lfloor>log 2 \<bar>x\<bar>\<rfloor>"
  have "(2::real) powr of_int ?k = 2 powi ?k" "(2::real) powr of_int (?k + 1) = 2 powi (?k + 1)"
    by (rule powr_real_of_int'; simp)+
  moreover have "2 powr of_int ?k \<le> \<bar>x\<bar> \<and> \<bar>x\<bar> < 2 powr (of_int ?k + 1)"
    using assms floor_log_eq_powr_iff [of "\<bar>x\<bar>" 2 ?k] by simp
  ultimately show "2 powi ?k \<le> \<bar>x\<bar>" "\<bar>x\<bar> < 2 powi (?k + 1)"
    by (simp_all add: add.commute)
qed

lemma to_double_grid: "to_double x = 0 \<or> 2 powi (- 1074) \<le> \<bar>to_double x\<bar>"
proof (cases "x = 0 \<or> round_half_even (x / 2 powi ulp_exponent x) = 0")
  case True
  then show ?thesis by (auto simp: to_double_def)
next
  case False
  let ?n = "round_half_even (x / 2 powi ulp_exponent x)"
  have "1 \<le> \<bar>?n\<bar>" using False by linarith
  then have "(1::real) \<le> \<bar>of_int ?n\<bar>" by (metis of_int_1_le_iff of_int_abs)
  moreover have "(2::real) powi (- 1074) \<le> 2 powi ulp_exponent x"
    by (rule power_int_increasing) (simp_all add: ulp_exponent_ge)
  moreover have "(0::real) < 2 powi ulp_exponent x" by simp
  ultimately have "2 powi (- 1074) \<le> \<bar>of_int ?n\<bar> * (2::real) powi ulp_exponent x"
    by (smt (verit) mult_le_cancel_right1)
  then show ?thesis using False by (simp add: to_double_def abs_mult)
qed

lemma to_double_nonneg: "0 \<le> x \<Longrightarrow> 0 \<le> to_double x"
proof -
  assume "0 \<le> x"
  then have "0 \<le> x / 2 powi ulp_exponent x" by simp
  then have "0 \<le> round_half_even (x / 2 powi ulp_exponent x)"
    using round_half_even_mono_int [of 0] by simp
  then show ?thesis by (simp add: to_double_def)
qed

lemma to_double_lower:
  assumes "- 1022 \<le> j" "2 powi j \<le> x"
  shows "2 powi j \<le> to_double x"
proof -
  have pos: "0 < x" using assms(2) by (smt (verit) zero_less_power_int)
  let ?k = "\<lfloor>log 2 \<bar>x\<bar>\<rfloor>"
  have lo: "2 powi ?k \<le> x" and hi: "x < 2 powi (?k + 1)"
    using binade [of x] pos by simp_all
  have "(2::real) powi j < 2 powi (?k + 1)" using assms(2) hi by linarith
  then have "j < ?k + 1" by (smt (verit) power_int_increasing)
  then have jk: "j \<le> ?k" by simp
  then have e: "ulp_exponent x = ?k - 52" using assms(1) by (simp add: ulp_exponent_def)
  have "(2::real) powi ?k / 2 powi (?k - 52) = 2 ^ 52"
    by (simp add: power_int_diff)
  then have "(2::real) ^ 52 \<le> x / 2 powi (?k - 52)"
    using lo by (metis divide_right_mono zero_less_power_int less_eq_real_def zero_less_numeral)
  then have "of_int (2 ^ 52) \<le> x / 2 powi (?k - 52)" by simp
  then have "2 ^ 52 \<le> round_half_even (x / 2 powi (?k - 52))"
    by (rule round_half_even_mono_int)
  then have "(2::real) ^ 52 \<le> of_int (round_half_even (x / 2 powi (?k - 52)))"
    by (metis of_int_le_iff of_int_numeral of_int_power)
  then have "2 ^ 52 * 2 powi (?k - 52) \<le> to_double x"
    using pos by (simp add: to_double_def e)
  moreover have "(2::real) ^ 52 * 2 powi (?k - 52) = 2 powi ?k"
    by (simp add: power_int_diff)
  moreover have "(2::real) powi j \<le> 2 powi ?k"
    using jk by (intro power_int_increasing) simp_all
  ultimately show ?thesis by linarith
qed

lemma to_double_lower_subnormal:
  assumes "2 powi (- 1074) \<le> x"
  shows "2 powi (- 1074) \<le> to_double x"
proof -
  have pos: "0 < x" using assms by (smt (verit) zero_less_power_int)
  let ?k = "\<lfloor>log 2 \<bar>x\<bar>\<rfloor>"
  show ?thesis
  proof (cases "- 1022 \<le> ?k")
    case True
    have "2 powi ?k \<le> x" using binade(1) [of x] pos by simp
    then have "2 powi ?k \<le> to_double x" using True by (rule to_double_lower [rotated])
    moreover have "(2::real) powi (- 1074) \<le> 2 powi ?k"
      using True by (intro power_int_increasing) simp_all
    ultimately show ?thesis by linarith
  next
    case False
    then have "?k - 52 \<le> - 1074" by linarith
    then have e: "ulp_exponent x = - 1074" unfolding ulp_exponent_def by (rule max_absorb2)
    have "1 \<le> x / 2 powi (- 1074)" using assms by (simp add: field_simps)
    then have "of_int 1 \<le> x / 2 powi (- 1074)" by simp
    then have "1 \<le> round_half_even (x / 2 powi (- 1074))"
      by (rule round_half_even_mono_int)
    then have "(1::real) \<le> of_int (round_half_even (x / 2 powi (- 1074)))" by simp
    then have "1 * 2 powi (- 1074) \<le> of_int (round_half_even (x / 2 powi (- 1074))) * (2::real) powi (- 1074)"
      by (intro mult_right_mono) simp_all
    then show ?thesis using pos by (simp add: to_double_def e)
  qed
qed

lemma square_sum_grid:
  assumes "0 \<le> acc" "acc = 0 \<or> 2 powi (- 1074) \<le> acc"
  shows "0 \<le> foldl (\<lambda>acc (x, y). double_add acc (double_mul x y)) acc (zip v v)
         \<and> (foldl (\<lambda>acc (x, y). double_add acc (double_mul x y)) acc (zip v v) = 0
            \<or> 2 powi (- 1074) \<le> foldl (\<lambda>acc (x, y). double_add acc (double_mul x y)) acc (zip v v))"
  using assms
proof (induction v arbitrary: acc)
  case Nil
  then show ?case by simp
next
  case (Cons x v)
  let ?a = "double_add acc (double_mul x x)"
  have "0 \<le> double_mul x x" unfolding double_mul_def by (rule to_double_nonneg) simp
  then have nn: "0 \<le> ?a" unfolding double_add_def using Cons.prems(1) by (intro to_double_nonneg) simp
  have "?a = 0 \<or> 2 powi (- 1074) \<le> \<bar>?a\<bar>" unfolding double_add_def by (rule to_double_grid)
  then have "?a = 0 \<or> 2 powi (- 1074) \<le> ?a" using nn by simp
  with nn show ?case using Cons.IH [of ?a] by simp
qed

lemma sqrt_grid_lower: "2 powi (- 1074) \<le> s \<Longrightarrow> 2 powi (- 537) \<le> sqrt s"
proof -
  assume a: "2 powi (- 1074) \<le> s"
  have "(2::real) powi (- 537) * 2 powi (- 537) = 2 powi (- 537 + - 537)"
    by (rule power_int_add [symmetric]) simp
  then have "((2::real) powi (- 537))\<^sup>2 = 2 powi (- 1074)"
    by (simp add: power2_eq_square)
  then have "((2::real) powi (- 537))\<^sup>2 \<le> s" using a by simp
  then show ?thesis by (rule real_le_rsqrt)
qed

lemma linalg_norm_lower:
  assumes "linalg_norm v \<noteq> 0"
  shows "2 powi (- 537) \<le> linalg_norm v"
proof -
  let ?s = "dot_sum v v"
  have g: "0 \<le> ?s \<and> (?s = 0 \<or> 2 powi (- 1074) \<le> ?s)"
    unfolding dot_sum_def by (rule square_sum_grid) simp_all
  have "?s \<noteq> 0"
    using assms by (auto simp: linalg_norm_def double_sqrt_def to_double_zero)
  then have "2 powi (- 1074) \<le> ?s" using g by blast
  then have "2 powi (- 537) \<le> sqrt ?s" by (rule sqrt_grid_lower)
  then show ?thesis
    unfolding linalg_norm_def double_sqrt_def by (intro to_double_lower) simp_all
qed

lemma double_mul_norms_nonzero:
  assumes "2 powi (- 537) \<le> user_norm" "2 powi (- 537) \<le> phrase_norm"
  shows "double_mul user_norm phrase_norm \<noteq> 0"
proof -
  have "(2::real) powi (- 537) * 2 powi (- 537) \<le> user_norm * phrase_norm"
    using assms by (intro mult_mono) simp_all
  moreover have "(2::real) powi (- 537) * 2 powi (- 537) = 2 powi (- 537 + - 537)"
    by (rule power_int_add [symmetric]) simp
  ultimately have "2 powi (- 1074) \<le> user_norm * phrase_norm" by simp
  then have "2 powi (- 1074) \<le> double_mul user_norm phrase_norm"
    unfolding double_mul_def by (rule to_double_lower_subnormal)
  moreover have "(0::real) < 2 powi (- 1074)" by simp
  ultimately show ?thesis by linarith
qed

lemma cosine_score_no_zero_division:
  "2 powi (- 537) \<le> user_norm \<Longrightarrow> linalg_norm phrase_vec \<noteq> 0 \<Longrightarrow>
   cosine_score user_vector user_norm phrase_vec (linalg_norm phrase_vec) \<noteq> Inl DivideByZero"
  using double_mul_norms_nonzero [of user_norm "linalg_norm phrase_vec"] linalg_norm_lower [of phrase_vec]
  by (simp add: cosine_score_def np_dot_def np_divide_def)

lemma phrase_loop_no_zero_division:
  "2 powi (- 537) \<le> user_norm \<Longrightarrow>
   phrase_loop user_vector user_norm refs st \<noteq> Inl DivideByZero"
proof (induction refs arbitrary: st)
  case Nil
  then show ?case by simp
next
  case (Cons r refs)
  obtain pv pt where r: "r = (pv, pt)" by (cases r)
  obtain m b where st: "st = (m, b)" by (cases st)
  show ?case
    using Cons cosine_score_no_zero_division [of user_norm pv user_vector]
    by (auto simp: r st Let_def split: sum.split)
qed

lemma chunk_scan_no_zero_division:
  "chunk_scan emb refs chunks st \<noteq> Inl DivideByZero"
proof (induction chunks arbitrary: st)
  case Nil
  then show ?case by simp
next
  case (Cons c chunks)
  have "phrase_loop uv (linalg_norm uv) refs st \<noteq> Inl DivideByZero"
    if "linalg_norm uv \<noteq> 0" for uv
    using that by (intro phrase_loop_no_zero_division linalg_norm_lower)
  then show ?case
    using Cons by (auto simp: Let_def split: option.split sum.split)
qed

lemma phrase_loop_filter:
  "phrase_loop user_vector user_norm refs st =
   phrase_loop user_vector user_norm (filter (\<lambda>(pv, pt). linalg_norm pv \<noteq> 0) refs) st"
proof (induction refs arbitrary: st)
  case Nil
  then show ?case by simp
next
  case (Cons r refs)
  obtain pv pt where r: "r = (pv, pt)" by (cases r)
  obtain m b where st: "st = (m, b)" by (cases st)
  show ?case
    using Cons by (simp add: r st Let_def split: sum.split)
qed

lemma chunk_scan_filter_refs:
  "chunk_scan emb refs chunks st =
   chunk_scan emb (filter (\<lambda>(pv, pt). linalg_norm pv \<noteq> 0) refs) chunks st"
proof (induction chunks arbitrary: st)
  case Nil
  then show ?case by simp
next
  case (Cons c chunks)
  then show ?case
    using phrase_loop_filter
    by (simp add: Let_def split: option.split sum.split)
qed

lemma chunk_scan_filter_chunks:
  "chunk_scan emb refs chunks st =
   chunk_scan emb refs (filter (\<lambda>c. \<not> zero_norm_chunk emb c) chunks) st"
  by (induction chunks arbitrary: st)
     (simp_all add: zero_norm_chunk_def Let_def split: option.split sum.split)

section \<open>The scan\<close>

lemma phrase_loop_raises:
  "2 powi (- 537) \<le> user_norm \<Longrightarrow>
   (\<exists>e. phrase_loop user_vector user_norm refs st = Inl e) \<longleftrightarrow>
   list_ex (\<lambda>(pv, pt). linalg_norm pv \<noteq> 0 \<and> length pv \<noteq> length user_vector) refs"
proof (induction refs arbitrary: st)
  case Nil
  then show ?case by simp
next
  case (Cons r refs)
  obtain pv pt where r: "r = (pv, pt)" by (cases r)
  obtain m b where st: "st = (m, b)" by (cases st)
  show ?case
  proof (cases "linalg_norm pv = 0")
    case True
    then show ?thesis using Cons by (simp add: r st)
  next
    case False
    show ?thesis
    proof (cases "length pv = length user_vector")
      case True
      then obtain s where "cosine_score user_vector user_norm pv (linalg_norm pv) = Inr s"
        using double_mul_norms_nonzero [OF Cons.prems linalg_norm_lower [OF False]]
        by (simp add: cosine_score_def np_dot_def np_divide_def)
      then have "phrase_loop user_vector user_norm (r # refs) st
                   = phrase_loop user_vector user_norm refs (if s > m then (s, pt) else (m, b))"
        using False by (simp add: r st)
      then show ?thesis
        using Cons.IH [OF Cons.prems, of "if s > m then (s, pt) else (m, b)"] True False
        by (simp add: r)
    next
      case neq: False
      then have "cosine_score user_vector user_norm pv (linalg_norm pv) = Inl ValueError"
        by (auto simp: cosine_score_def np_dot_def)
      then show ?thesis using neq False by (simp add: r st)
    qed
  qed
qed

lemma phrase_loop_skipping_eq:
  "phrase_loop user_vector user_norm refs st = Inr st' \<Longrightarrow>
   phrase_loop_skipping user_vector user_norm refs st = st'"
proof (induction refs arbitrary: st)
  case Nil
  then show ?case by simp
next
  case (Cons r refs)
  obtain pv pt where r: "r = (pv, pt)" by (cases r)
  obtain m b where st: "st = (m, b)" by (cases st)
  show ?case
    using Cons.prems Cons.IH
    by (auto simp: r st Let_def split: sum.splits if_splits)
qed

lemma chunk_scan_raises:
  "(\<exists>e. chunk_scan emb refs chunks st = Inl e) \<longleftrightarrow> list_ex (chunk_fails emb refs) chunks"
proof (induction chunks arbitrary: st)
  case Nil
  then show ?case by simp
next
  case (Cons c chunks)
  show ?case
  proof (cases "emb c")
    case None
    then show ?thesis by (simp add: chunk_fails_def)
  next
    case (Some uv)
    show ?thesis
    proof (cases "linalg_norm uv = 0")
      case True
      then show ?thesis using Some Cons by (simp add: chunk_fails_def)
    next
      case False
      show ?thesis
      proof (cases "phrase_loop uv (linalg_norm uv) refs st")
        case (Inl e)
        then have "list_ex (\<lambda>(pv, pt). linalg_norm pv \<noteq> 0 \<and> length pv \<noteq> length uv) refs"
          using phrase_loop_raises [OF linalg_norm_lower [OF False], of uv refs st] by blast
        then show ?thesis using Some False Inl by (simp add: chunk_fails_def)
      next
        case (Inr st')
        then have "\<not> list_ex (\<lambda>(pv, pt). linalg_norm pv \<noteq> 0 \<and> length pv \<noteq> length uv) refs"
          using phrase_loop_raises [OF linalg_norm_lower [OF False], of uv refs st] by simp
        then show ?thesis using Some False Inr Cons [of st'] by (simp add: chunk_fails_def)
      qed
    qed
  qed
qed

lemma chunk_scan_skipping_eq:
  "chunk_scan emb refs chunks st = Inr st' \<Longrightarrow> chunk_scan_skipping emb refs chunks st = st'"
proof (induction chunks arbitrary: st)
  case Nil
  then show ?case by simp
next
  case (Cons c chunks)
  show ?case
  proof (cases "emb c")
    case None
    then show ?thesis using Cons.prems by simp
  next
    case (Some uv)
    show ?thesis
    proof (cases "linalg_norm uv = 0")
      case True
      then show ?thesis using Some Cons by simp
    next
      case False
      then obtain st1 where st1: "phrase_loop uv (linalg_norm uv) refs st = Inr st1"
        and rest: "chunk_scan emb refs chunks st1 = Inr st'"
        using Some Cons.prems by (auto split: sum.splits)
      have "phrase_loop_skipping uv (linalg_norm uv) refs st = st1"
        using st1 by (rule phrase_loop_skipping_eq)
      then show ?thesis using Some False Cons.IH [OF rest] by simp
    qed
  qed
qed

lemma chunk_loop_nonempty: "is \<noteq> [] \<Longrightarrow> chunk_loop words window_size is \<noteq> []"
  by (cases "is") simp_all

lemma chunk_text_default:
  "\<exists>chunks. chunk_text text 15 10 = Inr chunks \<and> chunks \<noteq> []"
proof (cases "int (length (py_split text)) \<le> 15")
  case True
  then show ?thesis by (simp add: chunk_text_def)
next
  case False
  let ?n = "int (length (py_split text))"
  have "0 < nat ((?n + 10 - 1) div 10)" using False by simp
  then have "map (\<lambda>k. 0 + int k * 10) [0..<nat ((?n + 10 - 1) div 10)] \<noteq> []" by simp
  then show ?thesis
    using False chunk_loop_nonempty by (simp add: chunk_text_def py_range_def Let_def)
qed

section \<open>Coverage of the chunks\<close>

lemma ceil_div_gt:
  fixes n step :: int
  assumes "0 < step" "int b * step < n"
  shows "b < nat ((n + step - 1) div step)"
proof -
  have "(int b + 1) * step \<le> n + step - 1" using assms by (simp add: algebra_simps)
  then have "((int b + 1) * step) div step \<le> (n + step - 1) div step"
    using assms(1) by (rule zdiv_mono1)
  then have "int b + 1 \<le> (n + step - 1) div step" using assms(1) by simp
  then show ?thesis by linarith
qed

lemma chunk_loop_covers:
  assumes "0 < step" "step \<le> window_size"
    and "\<forall>v\<in>set words. v \<noteq> [] \<and> (\<forall>c\<in>set v. \<not> isspace c)"
  shows "a < m \<Longrightarrow> m = nat ((n + step - 1) div step) \<Longrightarrow> n = int (length words) \<Longrightarrow>
         int a * step \<le> j \<Longrightarrow> j < n \<Longrightarrow>
         \<exists>c\<in>set (chunk_loop words window_size (map (\<lambda>k. 0 + int k * step) [a..<m])).
            words ! nat j \<in> set (py_split c)"
proof (induction "m - a" arbitrary: a)
  case 0
  then show ?case by simp
next
  case (Suc d)
  let ?i = "int a * step"
  have upt: "[a..<m] = a # [Suc a..<m]" using Suc.prems(1) by (simp add: upt_conv_Cons)
  let ?c = "py_join (py_slice words ?i (?i + window_size))"
  have words_ok: "\<forall>v\<in>set (py_slice words ?i (?i + window_size)). v \<noteq> [] \<and> (\<forall>c\<in>set v. \<not> isspace c)"
    using assms(3) py_slice_subset [of words ?i "?i + window_size"] by blast
  show ?case
  proof (cases "j < ?i + window_size")
    case True
    have "words ! nat j \<in> set (py_slice words ?i (?i + window_size))"
      using py_slice_window [of ?i j words window_size] Suc.prems assms(1) True by simp
    then have "words ! nat j \<in> set (py_split ?c)" using split_join [OF words_ok] by simp
    then show ?thesis unfolding upt by simp
  next
    case False
    then have ge: "?i + window_size \<le> j" by simp
    then have nobreak: "\<not> n \<le> ?i + window_size" using Suc.prems by simp
    have next_le: "int (Suc a) * step \<le> j" using ge assms by (simp add: algebra_simps)
    have "int (Suc a) * step < n" using next_le Suc.prems by simp
    then have "Suc a < m" using ceil_div_gt [OF assms(1)] Suc.prems(2) by simp
    moreover have "d = m - Suc a" using Suc.hyps(2) by simp
    ultimately obtain c where "c \<in> set (chunk_loop words window_size (map (\<lambda>k. 0 + int k * step) [Suc a..<m]))"
       "words ! nat j \<in> set (py_split c)"
      using Suc.hyps(1) [of "Suc a"] Suc.prems next_le by blast
    then show ?thesis unfolding upt using nobreak Suc.prems(3) by auto
  qed
qed

text \<open>
  Claim C9. A text of at most \<open>window_size\<close> words (15 by default) gives exactly one
  chunk, and that chunk is the text itself, unchanged.
\<close>

theorem chunk_text_short:
  "int (length (py_split text)) \<le> window_size \<Longrightarrow> chunk_text text window_size step = Inr [text]"
  by (simp add: chunk_text_def)

theorem chunk_text_short_witness:
  "int (length (py_split ''I am feeling okay today'')) \<le> 15
   \<and> chunk_text ''I am feeling okay today'' 15 10 = Inr [''I am feeling okay today'']"
proof -
  have h: "int (length (py_split ''I am feeling okay today'')) \<le> 15" by code_simp
  show ?thesis using h chunk_text_short [OF h, of 10] by simp
qed

text \<open>
  Claim C10. For a window at least as large as the step and a step of at least one,
  \<^verbatim>\<open>_chunk_text\<close> returns, and every word of the text, at every position, is a word of
  one of the chunks returned: no part of a long message is left out of the scan.
\<close>

theorem chunk_text_covers:
  assumes "1 \<le> step" "step \<le> window_size"
  shows "\<exists>chunks. chunk_text text window_size step = Inr chunks
           \<and> (\<forall>j<length (py_split text). \<exists>c\<in>set chunks. py_split text ! j \<in> set (py_split c))"
proof (cases "int (length (py_split text)) \<le> window_size")
  case True
  then show ?thesis by (simp add: chunk_text_def)
next
  case False
  let ?words = "py_split text"
  let ?n = "int (length ?words)"
  let ?m = "nat ((?n + step - 1) div step)"
  let ?cs = "chunk_loop ?words window_size (map (\<lambda>k. 0 + int k * step) [0..<?m])"
  have step: "0 < step" using assms by simp
  have ct: "chunk_text text window_size step = Inr ?cs"
    using False step by (simp add: chunk_text_def py_range_def Let_def)
  have "\<exists>c\<in>set ?cs. ?words ! j \<in> set (py_split c)" if j: "j < length ?words" for j
  proof -
    have "0 < ?n" using j by (cases "py_split text") simp_all
    then have "int 0 * step < ?n" by simp
    then have "0 < ?m" using ceil_div_gt [OF step, of 0 ?n] by simp
    then have "\<exists>c\<in>set ?cs. ?words ! nat (int j) \<in> set (py_split c)"
      using chunk_loop_covers [OF step assms(2), of ?words 0 ?m ?n "int j"] py_split_words j
      by simp
    then show ?thesis by simp
  qed
  with ct show ?thesis by blast
qed

theorem chunk_text_covers_witness:
  "(1::int) \<le> 2 \<and> (2::int) \<le> 3
   \<and> chunk_text ''a b c d e'' 3 2 = Inr [''a b c'', ''c d e'']
   \<and> list_all (\<lambda>w. list_ex (\<lambda>c. w \<in> set (py_split c)) [''a b c'', ''c d e''])
         (py_split ''a b c d e'')"
proof -
  have ct: "chunk_text ''a b c d e'' 3 2 = Inr [''a b c'', ''c d e'']" by code_simp
  have "\<forall>j<length (py_split ''a b c d e'').
          \<exists>c\<in>set [''a b c'', ''c d e'']. py_split ''a b c d e'' ! j \<in> set (py_split c)"
    using chunk_text_covers [of 2 3 "''a b c d e''"] ct by simp
  then have "list_all (\<lambda>w. list_ex (\<lambda>c. w \<in> set (py_split c)) [''a b c'', ''c d e''])
               (py_split ''a b c d e'')"
    unfolding list_all_length list_ex_iff by blast
  with ct show ?thesis by simp
qed

section \<open>The lexical pass\<close>

lemma py_lower_no_capital_I: "CHR ''I'' \<notin> set (py_lower text)"
proof -
  have "lower_char c \<noteq> CHR ''I''" for c
    by (simp add: lower_char_def split: option.split)
  then show ?thesis unfolding py_lower_def by (metis (no_types) imageE list.set_map)
qed

lemma startswith_hd: "startswith s (c # p) \<Longrightarrow> c \<in> set s"
  by (cases s) auto

lemma re_search_hd: "re_search (c # p) t \<Longrightarrow> c \<in> set t"
  by (induction t) (auto dest: startswith_hd)

lemma I_quit_dead: "\<not> re_search ''I quit'' (py_lower text)"
  using re_search_hd [of "CHR ''I''" "'' quit''" "py_lower text"] py_lower_no_capital_I [of "text"]
  by auto

lemma lowercase_patterns:
  "list_all (\<lambda>p. p = ''I quit'' \<or> py_lower p = p) crisis_keywords"
  by code_simp

lemma lexical_pass_lowercase_patterns:
  assumes "p \<in> set crisis_keywords" "p \<noteq> ''I quit''" "contains_ignoring_case text p"
  shows "detect D text = Inr (True, lexical_reason)"
proof -
  have "py_lower p = p" using lowercase_patterns assms(1,2) by (auto simp: list_all_iff)
  then have "re_search p (py_lower text)" using assms(3) by (simp add: contains_ignoring_case_def)
  then have "list_ex (\<lambda>pattern. re_search pattern (py_lower text)) crisis_keywords"
    using assms(1) by (auto simp: list_ex_iff)
  then show ?thesis by (simp add: detect_def)
qed

lemma lexical_pass_no_match:
  "\<not> lexical_match text \<Longrightarrow>
   detect D text =
     (case embeddings_model D of
        None \<Rightarrow> Inr (False, '''')
      | Some emb \<Rightarrow>
          if phrase_embeddings D = [] then Inr (False, '''')
          else (case semantic_try emb D text of
                  Inl e \<Rightarrow> Inr (False, '''')
                | Inr (Some r) \<Rightarrow> Inr r
                | Inr None \<Rightarrow> Inr (False, '''')))"
  by (simp add: lexical_match_def detect_def)

text \<open>
  Claim C1. The text \<^verbatim>\<open>I quit\<close> contains the configured pattern \<^verbatim>\<open>I quit\<close>, yet \<^verbatim>\<open>detect\<close>
  without a provider answers \<open>(False, "")\<close>: the text is lowered before the search and
  the pattern is not, so this pattern matches no text at all. (The nine patterns written
  in lower case do give \<open>(True, lexical_reason)\<close>: \<open>lexical_pass_lowercase_patterns\<close>.)
\<close>

theorem lexical_pattern_I_quit_missed:
  "''I quit'' \<in> set crisis_keywords
   \<and> contains_ignoring_case ''I quit'' ''I quit''
   \<and> detect (CrisisDetector None) ''I quit'' = Inr (False, '''')
   \<and> (\<forall>text. \<not> re_search ''I quit'' (py_lower text))"
proof -
  have k: "''I quit'' \<in> set crisis_keywords" by (simp add: crisis_keywords_def)
  have c: "contains_ignoring_case ''I quit'' ''I quit''" by code_simp
  have "\<not> list_ex (\<lambda>pattern. re_search pattern (py_lower ''I quit'')) crisis_keywords"
    by code_simp
  then have d: "detect (CrisisDetector None) ''I quit'' = Inr (False, '''')"
    by (simp add: detect_def CrisisDetector_def)
  from k c d I_quit_dead show ?thesis by blast
qed

section \<open>Failures in the semantic pass\<close>

lemma long_text_chunks:
  "chunk_text long_text 15 10 = Inr [''a a a a a a a a a a a a a a a'', ''a a a a a a'']"
  by code_simp

lemma long_text_no_lexical_match: "\<not> lexical_match long_text"
  by code_simp

lemma dot_sum_unit: "dot_sum [1, 0] [1, 0] = 1"
  by (simp add: dot_sum_def double_add_def double_mul_def to_double_zero to_double_1)

lemma linalg_norm_unit: "linalg_norm [1, 0] = 1"
  by (simp add: linalg_norm_def dot_sum_unit double_sqrt_def to_double_1)

lemma flaky_scan:
  "chunk_scan flaky_embed [([1, 0], ''Mock phrase'')]
     [''a a a a a a a a a a a a a a a'', ''a a a a a a''] (0, '''') = Inl ProviderError"
  by (simp add: flaky_embed_def linalg_norm_unit cosine_score_def np_dot_def np_divide_def
        dot_sum_unit double_mul_def to_double_1)

lemma flaky_scan_skipping:
  "chunk_scan_skipping flaky_embed [([1, 0], ''Mock phrase'')]
     [''a a a a a a a a a a a a a a a'', ''a a a a a a''] (0, '''') = (1, ''Mock phrase'')"
  by (simp add: flaky_embed_def linalg_norm_unit cosine_score_def np_dot_def np_divide_def
        dot_sum_unit double_mul_def to_double_1)

text \<open>
  Claim C2, as stated, fails. The message has two chunks; the first one is embedded next
  to the reference vector (similarity 1, above the threshold), the provider raises on the
  second one. \<^verbatim>\<open>detect\<close> answers \<open>(False, "")\<close>, where skipping the failed chunk would
  answer \<open>(True, semantic_reason)\<close>.
\<close>

theorem failed_chunk_aborts_scan:
  "chunk_text long_text 15 10 = Inr [''a a a a a a a a a a a a a a a'', ''a a a a a a'']
   \<and> flaky_embed ''a a a a a a a a a a a a a a a'' = Some [1, 0]
   \<and> cosine_score [1, 0] (linalg_norm [1, 0]) [1, 0] (linalg_norm [1, 0]) = Inr 1
   \<and> 1 > threshold
   \<and> flaky_embed ''a a a a a a'' = None
   \<and> detect flaky_detector long_text = Inr (False, '''')
   \<and> detect_skipping flaky_detector long_text = Inr (True, semantic_reason)"
proof -
  have lex: "\<not> list_ex (\<lambda>pattern. re_search pattern (py_lower long_text)) crisis_keywords"
    using long_text_no_lexical_match by (simp add: lexical_match_def)
  have d: "detect flaky_detector long_text = Inr (False, '''')"
    using lex
    by (simp add: detect_def flaky_detector_def semantic_try_def long_text_chunks flaky_scan
        del: chunk_scan.simps)
  have s: "detect_skipping flaky_detector long_text = Inr (True, semantic_reason)"
    using lex
    by (simp add: detect_skipping_def flaky_detector_def long_text_chunks flaky_scan_skipping
        threshold_def del: chunk_scan_skipping.simps)
  have c: "cosine_score [1, 0] (linalg_norm [1, 0]) [1, 0] (linalg_norm [1, 0]) = Inr 1"
    by (simp add: linalg_norm_unit cosine_score_def np_dot_def np_divide_def
        dot_sum_unit double_mul_def to_double_1)
  show ?thesis
    using d s c long_text_chunks by (simp add: flaky_embed_def threshold_def)
qed

text \<open>
  Claim C2, amended. After a lexical pass without a match: if the semantic pass raises
  (the provider raises on some chunk, or a non-zero chunk vector meets a non-zero
  reference vector of another length), \<^verbatim>\<open>detect\<close> answers \<open>(False, "")\<close> whatever was scored
  before; otherwise it answers what the scan that skips gives, zero-norm vectors being
  skipped in both.
\<close>

theorem semantic_pass_exception_aborts:
  "detect D text =
     (if lexical_match text then Inr (True, lexical_reason)
      else if semantic_pass_raises D text then Inr (False, '''')
      else detect_skipping D text)"
proof (cases "lexical_match text")
  case True
  then show ?thesis by (simp add: lexical_match_def detect_def)
next
  case False
  then have lex: "\<not> list_ex (\<lambda>pattern. re_search pattern (py_lower text)) crisis_keywords"
    by (simp add: lexical_match_def)
  show ?thesis
  proof (cases "embeddings_model D")
    case None
    then show ?thesis
      using False lex by (simp add: detect_def detect_skipping_def semantic_pass_raises_def)
  next
    case (Some emb)
    show ?thesis
    proof (cases "phrase_embeddings D = []")
      case True
      then show ?thesis
        using False lex Some by (simp add: detect_def detect_skipping_def semantic_pass_raises_def)
    next
      case nonempty: False
      obtain chunks where ct: "chunk_text text 15 10 = Inr chunks" and ne: "chunks \<noteq> []"
        using chunk_text_default by blast
      let ?refs = "zip (phrase_embeddings D) (semantic_phrases D)"
      show ?thesis
      proof (cases "list_ex (chunk_fails emb ?refs) chunks")
        case True
        then obtain e where "chunk_scan emb ?refs chunks (0, '''') = Inl e"
          using chunk_scan_raises [of emb ?refs chunks "(0, '''')"] by blast
        then have "semantic_try emb D text = Inl e" by (simp add: semantic_try_def ct)
        then show ?thesis
          using False lex Some nonempty True ct
          by (simp add: detect_def semantic_pass_raises_def)
      next
        case no_fail: False
        then obtain st' where scan: "chunk_scan emb ?refs chunks (0, '''') = Inr st'"
          using chunk_scan_raises [of emb ?refs chunks "(0, '''')"]
          by (cases "chunk_scan emb ?refs chunks (0, '''')") auto
        then have skip: "chunk_scan_skipping emb ?refs chunks (0, '''') = st'"
          by (rule chunk_scan_skipping_eq)
        obtain m b where st': "st' = (m, b)" by (cases st')
        have "semantic_try emb D text =
                (if m > threshold then Inr (Some (True, semantic_reason)) else Inr None)"
          using ne by (simp add: semantic_try_def ct scan st')
        then show ?thesis
          using False lex Some nonempty no_fail ct skip st'
          by (simp add: detect_def detect_skipping_def semantic_pass_raises_def)
      qed
    qed
  qed
qed

theorem semantic_pass_exception_aborts_witness:
  "\<not> lexical_match long_text
   \<and> semantic_pass_raises flaky_detector long_text
   \<and> detect flaky_detector long_text = Inr (False, '''')"
proof -
  have r: "semantic_pass_raises flaky_detector long_text"
    by (simp add: semantic_pass_raises_def flaky_detector_def long_text_chunks chunk_fails_def
        flaky_embed_def)
  show ?thesis
    using semantic_pass_exception_aborts [of flaky_detector long_text] r long_text_no_lexical_match
    by simp
qed

section \<open>The result of detect\<close>

lemma reasons_nonempty: "lexical_reason \<noteq> []" "semantic_reason \<noteq> []"
  by (simp_all add: lexical_reason_def semantic_reason_def)

lemma semantic_try_result:
  "semantic_try emb D text = Inr (Some r) \<Longrightarrow> r = (True, semantic_reason)"
  by (auto simp: semantic_try_def split: sum.splits prod.splits if_splits)

lemma detect_cases:
  "detect D text = Inr (True, lexical_reason) \<or> detect D text = Inr (True, semantic_reason)
   \<or> detect D text = Inr (False, '''')"
proof (cases "list_ex (\<lambda>pattern. re_search pattern (py_lower text)) crisis_keywords")
  case True
  then show ?thesis by (simp add: detect_def)
next
  case False
  show ?thesis
  proof (cases "embeddings_model D")
    case None
    then show ?thesis using False by (simp add: detect_def)
  next
    case (Some emb)
    show ?thesis
    proof (cases "semantic_try emb D text")
      case (Inl e)
      then show ?thesis using False Some by (simp add: detect_def)
    next
      case (Inr r)
      then show ?thesis
        using False Some semantic_try_result [of emb D "text"]
        by (cases r) (auto simp: detect_def)
    qed
  qed
qed

text \<open>
  Claim C7. \<^verbatim>\<open>detect\<close> returns a pair whose reason is empty exactly when the flag is
  false; the reason of a true result is one of the two fixed reasons, both non-empty.
\<close>

theorem detect_reason_empty_iff_not_crisis:
  "\<exists>is_crisis reason. detect D text = Inr (is_crisis, reason)
     \<and> (reason = [] \<longleftrightarrow> \<not> is_crisis)
     \<and> (reason = [] \<or> reason = lexical_reason \<or> reason = semantic_reason)"
  using detect_cases [of D "text"] reasons_nonempty by auto

theorem detect_reason_empty_iff_not_crisis_witness:
  "detect (CrisisDetector None) ''I am feeling okay today'' = Inr (False, '''')
   \<and> detect (CrisisDetector None) ''I want to kill myself'' = Inr (True, lexical_reason)
   \<and> lexical_reason \<noteq> []"
proof -
  have "\<not> list_ex (\<lambda>pattern. re_search pattern (py_lower ''I am feeling okay today'')) crisis_keywords"
    by code_simp
  then have a: "detect (CrisisDetector None) ''I am feeling okay today'' = Inr (False, '''')"
    by (simp add: detect_def CrisisDetector_def)
  have "list_ex (\<lambda>pattern. re_search pattern (py_lower ''I want to kill myself'')) crisis_keywords"
    by code_simp
  then have b: "detect (CrisisDetector None) ''I want to kill myself'' = Inr (True, lexical_reason)"
    by (simp add: detect_def)
  show ?thesis
    using detect_reason_empty_iff_not_crisis [of "CrisisDetector None" "''I want to kill myself''"] a b
    by auto
qed

section \<open>Cosine similarity\<close>

lemma to_double_2: "to_double 2 = 2"
  using to_double_eval [of 1 2 "2 ^ 52"] by (simp add: power_int_minus)

lemma to_double_3: "to_double 3 = 3"
  using to_double_eval [of 1 3 "3 * 2 ^ 51"] by (simp add: power_int_minus)

lemma dot_sum_ones: "dot_sum [1, 1, 1] [1, 1, 1] = 3"
  by (simp add: dot_sum_def double_add_def double_mul_def to_double_1 to_double_2 to_double_3)

lemma np_dot_ones: "np_dot [1, 1, 1] [1, 1, 1] = Inr 3"
  by (simp add: np_dot_def dot_sum_ones)

lemma sqrt3_bounds:
  "7800463371553962 - 1 / 2 < sqrt 3 * 2 ^ 52" "sqrt 3 * 2 ^ 52 < 7800463371553962 + 1 / 2"
proof -
  have "((7800463371553962 - 1 / 2) / 2 ^ 52)\<^sup>2 < (3::real)" by (simp add: power2_eq_square)
  then have "(7800463371553962 - 1 / 2) / 2 ^ 52 < sqrt 3" by (rule real_less_rsqrt)
  then show "7800463371553962 - 1 / 2 < sqrt 3 * 2 ^ 52" by (simp add: field_simps)
  have "(3::real) < ((7800463371553962 + 1 / 2) / 2 ^ 52)\<^sup>2" by (simp add: power2_eq_square)
  then have "sqrt 3 < (7800463371553962 + 1 / 2) / 2 ^ 52" by (intro real_less_lsqrt) simp_all
  then show "sqrt 3 * 2 ^ 52 < 7800463371553962 + 1 / 2" by (simp add: field_simps)
qed

lemma double_sqrt_3: "double_sqrt 3 = 7800463371553962 / 2 ^ 52"
proof -
  have "1 < sqrt 3" by (rule real_less_rsqrt) simp
  moreover have "sqrt 3 < 2" by (intro real_less_lsqrt) simp_all
  ultimately show ?thesis
    unfolding double_sqrt_def
    using to_double_eval [of 0 "sqrt 3" 7800463371553962] sqrt3_bounds
    by (simp add: power_int_minus)
qed

lemma linalg_norm_ones: "linalg_norm [1, 1, 1] = 7800463371553962 / 2 ^ 52"
  by (simp add: linalg_norm_def dot_sum_ones double_sqrt_3)

lemma linalg_norm_product:
  "double_mul (7800463371553962 / 2 ^ 52) (7800463371553962 / 2 ^ 52) = 6755399441055743 / 2 ^ 51"
  unfolding double_mul_def
  using to_double_eval [of 1 "(7800463371553962 / 2 ^ 52) * (7800463371553962 / 2 ^ 52)" 6755399441055743]
  by (simp add: power_int_minus)

lemma double_quotient:
  "to_double (3 / (6755399441055743 / 2 ^ 51)) = 1 + 1 / 2 ^ 52"
  using to_double_eval [of 0 "3 / (6755399441055743 / 2 ^ 51)" "2 ^ 52 + 1"]
  by (simp add: power_int_minus)

text \<open>
  Claim C6, as stated, fails. For a chunk vector and a reference vector that are both
  \<open>[1.0, 1.0, 1.0]\<close>, the norms are non-zero and the similarity computed is
  \<open>1 + 1 / 2 ^ 52\<close>, printed 1.0000000000000002: above 1. (The squared norm is 3, its
  root rounds to 7800463371553962 / 2^52, the product of the two norms rounds to a value
  just below 3, and 3 divided by it rounds to the double after 1.)
\<close>

theorem computed_similarity_exceeds_one:
  "linalg_norm [1, 1, 1] \<noteq> 0
   \<and> cosine_score [1, 1, 1] (linalg_norm [1, 1, 1]) [1, 1, 1] (linalg_norm [1, 1, 1])
       = Inr (1 + 1 / 2 ^ 52)
   \<and> (1::real) < 1 + 1 / 2 ^ 52"
proof -
  define c :: real where "c = 7800463371553962 / 2 ^ 52"
  define p :: real where "p = 6755399441055743 / 2 ^ 51"
  have n: "linalg_norm [1, 1, 1] = c" unfolding c_def by (rule linalg_norm_ones)
  have m: "double_mul c c = p" unfolding c_def p_def by (rule linalg_norm_product)
  have q: "to_double (3 / p) = 1 + 1 / 2 ^ 52" unfolding p_def by (rule double_quotient)
  have nz: "c \<noteq> 0" "p \<noteq> 0" by (simp_all add: c_def p_def)
  have "cosine_score [1, 1, 1] c [1, 1, 1] c = Inr (1 + 1 / 2 ^ 52)"
    by (simp only: cosine_score_def np_dot_ones m np_divide_def nz q sum.case if_False)
  then show ?thesis using nz by (simp add: n)
qed

text \<open>
  Claim C6, amended. The scan never divides by zero: a non-zero norm is at least
  \<open>2 powi (-537)\<close>, so the product of two of them does not round to zero. A chunk whose
  vector has norm zero is passed over with all its comparisons, a reference vector of
  norm zero is passed over in its comparison, and the result of the scan is the result
  of the scan without the zero-norm vectors. No bound on the computed similarity is part
  of the statement.
\<close>

theorem zero_norm_vectors_skipped:
  "chunk_scan emb refs chunks st \<noteq> Inl DivideByZero
   \<and> (zero_norm_chunk emb c \<longrightarrow>
        chunk_scan emb refs (c # chunks) st = chunk_scan emb refs chunks st)
   \<and> (linalg_norm pv = 0 \<longrightarrow>
        phrase_loop uv un ((pv, pt) # rest) (m, best) = phrase_loop uv un rest (m, best))
   \<and> chunk_scan emb refs chunks st =
       chunk_scan emb (filter (\<lambda>(pv, pt). linalg_norm pv \<noteq> 0) refs)
         (filter (\<lambda>c. \<not> zero_norm_chunk emb c) chunks) st"
proof -
  have 1: "chunk_scan emb refs chunks st \<noteq> Inl DivideByZero"
    by (rule chunk_scan_no_zero_division)
  have 2: "zero_norm_chunk emb c \<longrightarrow>
        chunk_scan emb refs (c # chunks) st = chunk_scan emb refs chunks st"
    by (simp add: zero_norm_chunk_def split: option.split)
  have 3: "linalg_norm pv = 0 \<longrightarrow>
        phrase_loop uv un ((pv, pt) # rest) (m, best) = phrase_loop uv un rest (m, best)"
    by simp
  have 4: "chunk_scan emb refs chunks st =
       chunk_scan emb (filter (\<lambda>(pv, pt). linalg_norm pv \<noteq> 0) refs)
         (filter (\<lambda>c. \<not> zero_norm_chunk emb c) chunks) st"
    using chunk_scan_filter_refs [of emb refs chunks st]
      chunk_scan_filter_chunks [of emb "filter (\<lambda>(pv, pt). linalg_norm pv \<noteq> 0) refs" chunks st]
    by simp
  from 1 2 3 4 show ?thesis by blast
qed

lemma linalg_norm_zero2: "linalg_norm [0, 0] = 0"
  by (simp add: linalg_norm_def dot_sum_def double_sqrt_def double_add_def double_mul_def
      to_double_zero)

theorem zero_norm_vectors_skipped_witness:
  "zero_norm_chunk (\<lambda>c. Some [0, 0]) ''x''
   \<and> chunk_scan (\<lambda>c. Some [0, 0]) [([1, 1, 1], ''p'')] [''x'', ''y''] (0, '''')
       = chunk_scan (\<lambda>c. Some [0, 0]) [([1, 1, 1], ''p'')] [''y''] (0, '''')
   \<and> linalg_norm [0, 0] = 0
   \<and> phrase_loop [1, 1, 1] 1 [([0, 0], ''z''), ([1, 1, 1], ''p'')] (0, '''')
       = phrase_loop [1, 1, 1] 1 [([1, 1, 1], ''p'')] (0, '''')
   \<and> chunk_scan (\<lambda>c. Some [0, 0]) [([1, 1, 1], ''p'')] [''y''] (0, '''') \<noteq> Inl DivideByZero"
proof -
  have z: "zero_norm_chunk (\<lambda>c. Some [0, 0]) ''x''"
    by (simp add: zero_norm_chunk_def linalg_norm_zero2)
  show ?thesis
    using zero_norm_vectors_skipped [of "\<lambda>c. Some [0, 0]" "[([1, 1, 1], ''p'')]" "[''y'']" "(0, '''')"
        "''x''" "[0, 0]" "[1, 1, 1]" 1 "''z''" "[([1, 1, 1], ''p'')]" 0 "''''"]
      z linalg_norm_zero2
    by blast
qed

section \<open>Alert providers\<close>

lemma twilio_send_alert_returns: "\<exists>b. twilio_send_alert P api data = Inr b"
  by (auto simp: twilio_send_alert_def Let_def split: sum.split)

lemma telegram_send_alert_returns: "\<exists>b. telegram_send_alert T post data = Inr b"
  by (auto simp: telegram_send_alert_def Let_def split: sum.split)

lemma twilio_missing_credentials:
  "\<not> truthy (account_sid P) \<or> \<not> truthy (auth_token P) \<Longrightarrow> twilio_send_alert P api data = Inr False"
  by (auto simp: twilio_send_alert_def Let_def)

lemma telegram_missing_credentials:
  "\<not> truthy (bot_token T) \<or> \<not> truthy (chat_id T) \<Longrightarrow> telegram_send_alert T post data = Inr False"
  by (auto simp: telegram_send_alert_def Let_def)

lemma twilio_transport_error:
  "\<forall>req. api req = Inl e \<Longrightarrow> twilio_send_alert P api data = Inr False"
  by (simp add: twilio_send_alert_def twilio_try_def Let_def split: option.split)

lemma telegram_transport_error:
  "\<forall>url p. post url p = Inl e \<Longrightarrow> telegram_send_alert T post data = Inr False"
  by (simp add: telegram_send_alert_def telegram_try_def Let_def)

lemma telegram_status:
  "post (base_url T) [(''chat_id'', chat_id T), (''text'', payload_get data ''message''),
      (''parse_mode'', Some ''Markdown'')] = Inr r \<Longrightarrow> status_code r \<noteq> 200 \<Longrightarrow>
   telegram_send_alert T post data = Inr False"
  by (simp add: telegram_send_alert_def telegram_try_def Let_def)

section \<open>The dispatcher\<close>

lemma telegram_step_returns:
  "\<exists>b. telegram_provider D tdata = Inr b \<Longrightarrow> \<exists>tr'. telegram_step D tdata tr s = (tr', Inr ())"
  by (auto simp: telegram_step_def)

lemma trigger_alert_returns:
  assumes "\<And>data. \<exists>b. sms_provider D data = Inr b" "\<And>data. \<exists>b. telegram_provider D data = Inr b"
  shows "\<exists>tr. trigger_alert D user_name reason location short_message = (tr, Inr ())"
proof -
  let ?sd = "sms_data D user_name reason location short_message"
  let ?td = "telegram_data user_name reason location short_message"
  obtain b where b: "sms_provider D ?sd = Inr b" using assms(1) by blast
  show ?thesis
    using b telegram_step_returns [OF assms(2) [of ?td]]
    by (simp add: trigger_alert_def Let_def)
qed

lemma telegram_step_events:
  "telegram_provider D tdata = Inr b \<Longrightarrow>
   fst (telegram_step D tdata tr s) =
     (if s then tr else tr @ [TelegramSendAlert tdata (Inr b)] @ (if b then [] else [LogCritical]))"
  by (simp add: telegram_step_def)

lemma trigger_alert_events:
  assumes "sms_provider D (sms_data D user_name reason location short_message) = Inr s"
    and "telegram_provider D (telegram_data user_name reason location short_message) = Inr t"
  shows "fst (trigger_alert D user_name reason location short_message) =
     (if truthy (helpline_number D)
      then SmsSendAlert (sms_data D user_name reason location short_message) (Inr s)
             # (if s then []
                else TelegramSendAlert (telegram_data user_name reason location short_message) (Inr t)
                       # (if t then [] else [LogCritical]))
      else TelegramSendAlert (telegram_data user_name reason location short_message) (Inr t)
             # (if t then [] else [LogCritical]))"
  using assms by (simp add: trigger_alert_def Let_def telegram_step_events)

lemma AlertDispatcher_providers_return:
  "\<exists>b. sms_provider (AlertDispatcher getenv api post) data = Inr b"
  "\<exists>b. telegram_provider (AlertDispatcher getenv api post) data = Inr b"
  by (simp_all add: AlertDispatcher_def twilio_send_alert_returns telegram_send_alert_returns)

text \<open>
  Claim C3. In every run of \<^verbatim>\<open>trigger_alert\<close> of a dispatcher built by its constructor,
  the Telegram provider is called exactly when the SMS provider did not report success;
  without a helpline number the SMS provider is not called at all and the Telegram
  provider is; and after a reported SMS success the Telegram provider is not called.
\<close>

theorem backup_iff_primary_not_successful:
  "(telegram_invoked (fst (trigger_alert (AlertDispatcher getenv api post) user_name reason location short_message))
      \<longleftrightarrow> \<not> sms_reported_success (fst (trigger_alert (AlertDispatcher getenv api post) user_name reason location short_message)))
   \<and> (\<not> truthy (getenv ''HELPLINE_PHONE_NUMBER'') \<longrightarrow>
        \<not> sms_attempted (fst (trigger_alert (AlertDispatcher getenv api post) user_name reason location short_message))
        \<and> telegram_invoked (fst (trigger_alert (AlertDispatcher getenv api post) user_name reason location short_message)))
   \<and> (sms_reported_success (fst (trigger_alert (AlertDispatcher getenv api post) user_name reason location short_message)) \<longrightarrow>
        \<not> telegram_invoked (fst (trigger_alert (AlertDispatcher getenv api post) user_name reason location short_message)))"
proof -
  let ?D = "AlertDispatcher getenv api post"
  obtain s where s: "sms_provider ?D (sms_data ?D user_name reason location short_message) = Inr s"
    using AlertDispatcher_providers_return(1) by blast
  obtain t where t: "telegram_provider ?D (telegram_data user_name reason location short_message) = Inr t"
    using AlertDispatcher_providers_return(2) by blast
  have h: "helpline_number ?D = getenv ''HELPLINE_PHONE_NUMBER''" by (simp add: AlertDispatcher_def)
  show ?thesis
    unfolding trigger_alert_events [OF s t] h
    by (simp add: telegram_invoked_def sms_reported_success_def sms_attempted_def)
qed

theorem backup_iff_primary_not_successful_witness:
  "\<not> truthy (empty_env ''HELPLINE_PHONE_NUMBER'')
   \<and> \<not> sms_attempted (fst (trigger_alert (AlertDispatcher empty_env accepting_api failing_post)
                               ''Rishabh'' ''Test Reason'' ''Pune'' ''Help me''))
   \<and> telegram_invoked (fst (trigger_alert (AlertDispatcher empty_env accepting_api failing_post)
                               ''Rishabh'' ''Test Reason'' ''Pune'' ''Help me''))
   \<and> sms_reported_success (fst (trigger_alert (AlertDispatcher configured_env accepting_api failing_post)
                               ''Rishabh'' ''Test Reason'' ''Pune'' ''Help me''))
   \<and> \<not> telegram_invoked (fst (trigger_alert (AlertDispatcher configured_env accepting_api failing_post)
                               ''Rishabh'' ''Test Reason'' ''Pune'' ''Help me''))"
proof -
  have e: "\<not> truthy (empty_env ''HELPLINE_PHONE_NUMBER'')"
    by (simp add: empty_env_def truthy_def)
  have s: "sms_reported_success (fst (trigger_alert (AlertDispatcher configured_env accepting_api failing_post)
                               ''Rishabh'' ''Test Reason'' ''Pune'' ''Help me''))"
    by (simp add: trigger_alert_def AlertDispatcher_def TwilioProvider_def configured_env_def
        truthy_def twilio_send_alert_def twilio_try_def payload_get_def sms_data_def
        accepting_api_def telegram_step_def sms_reported_success_def Let_def)
  show ?thesis
    using e s
      backup_iff_primary_not_successful [of empty_env accepting_api failing_post
        "''Rishabh''" "''Test Reason''" "''Pune''" "''Help me''"]
      backup_iff_primary_not_successful [of configured_env accepting_api failing_post
        "''Rishabh''" "''Test Reason''" "''Pune''" "''Help me''"]
    by blast
qed

text \<open>
  Claim C4. \<^verbatim>\<open>detect\<close> returns a pair for every detector and text; each provider's
  \<^verbatim>\<open>send_alert\<close> returns a boolean for every payload, \<open>False\<close> when a credential is
  missing and \<open>False\<close> when anything raises inside its \<^verbatim>\<open>try\<close>; and \<^verbatim>\<open>trigger_alert\<close> of a
  dispatcher built by its constructor returns.
\<close>

theorem no_exception_escapes:
  "(\<exists>is_crisis reason. detect D text = Inr (is_crisis, reason))
   \<and> (\<exists>b. twilio_send_alert P api data = Inr b)
   \<and> (\<exists>b. telegram_send_alert T post data = Inr b)
   \<and> (\<not> truthy (account_sid P) \<or> \<not> truthy (auth_token P) \<longrightarrow>
        twilio_send_alert P api data = Inr False)
   \<and> (\<not> truthy (bot_token T) \<or> \<not> truthy (chat_id T) \<longrightarrow>
        telegram_send_alert T post data = Inr False)
   \<and> (twilio_try P api (payload_get data ''phone_number'') (payload_get data ''message'') = Inl e \<longrightarrow>
        twilio_send_alert P api data = Inr False)
   \<and> (telegram_try T post (payload_get data ''message'') = Inl e \<longrightarrow>
        telegram_send_alert T post data = Inr False)
   \<and> (\<exists>tr. trigger_alert (AlertDispatcher getenv api post) user_name reason location short_message
              = (tr, Inr ()))"
proof -
  have 1: "\<exists>is_crisis reason. detect D text = Inr (is_crisis, reason)"
    using detect_cases [of D "text"] by auto
  have 4: "\<not> truthy (account_sid P) \<or> \<not> truthy (auth_token P) \<longrightarrow>
        twilio_send_alert P api data = Inr False"
    using twilio_missing_credentials by blast
  have 5: "\<not> truthy (bot_token T) \<or> \<not> truthy (chat_id T) \<longrightarrow>
        telegram_send_alert T post data = Inr False"
    using telegram_missing_credentials by blast
  have 6: "twilio_try P api (payload_get data ''phone_number'') (payload_get data ''message'') = Inl e \<longrightarrow>
        twilio_send_alert P api data = Inr False"
    by (simp add: twilio_send_alert_def Let_def)
  have 7: "telegram_try T post (payload_get data ''message'') = Inl e \<longrightarrow>
        telegram_send_alert T post data = Inr False"
    by (simp add: telegram_send_alert_def Let_def)
  have 8: "\<exists>tr. trigger_alert (AlertDispatcher getenv api post) user_name reason location short_message
              = (tr, Inr ())"
    by (rule trigger_alert_returns) (rule AlertDispatcher_providers_return)+
  from 1 twilio_send_alert_returns telegram_send_alert_returns 4 5 6 7 8 show ?thesis by blast
qed

theorem no_exception_escapes_witness:
  "\<not> truthy (account_sid (TwilioProvider empty_env))
   \<and> twilio_send_alert (TwilioProvider empty_env) failing_api [(''message'', Some ''Help me'')] = Inr False
   \<and> \<not> truthy (bot_token (TelegramProvider empty_env))
   \<and> telegram_send_alert (TelegramProvider empty_env) failing_post [(''message'', Some ''Help me'')] = Inr False
   \<and> twilio_try (TwilioProvider configured_env) failing_api
        (payload_get [(''phone_number'', Some ''1234567890''), (''message'', Some ''Help me'')] ''phone_number'')
        (payload_get [(''phone_number'', Some ''1234567890''), (''message'', Some ''Help me'')] ''message'')
        = Inl TransportError
   \<and> twilio_send_alert (TwilioProvider configured_env) failing_api
        [(''phone_number'', Some ''1234567890''), (''message'', Some ''Help me'')] = Inr False
   \<and> telegram_try (TelegramProvider configured_env) failing_post
        (payload_get [(''message'', Some ''Help me'')] ''message'') = Inl TransportError
   \<and> telegram_send_alert (TelegramProvider configured_env) failing_post
        [(''message'', Some ''Help me'')] = Inr False"
proof -
  have a: "\<not> truthy (account_sid (TwilioProvider empty_env))"
    by (simp add: TwilioProvider_def empty_env_def truthy_def)
  have b: "\<not> truthy (bot_token (TelegramProvider empty_env))"
    by (simp add: TelegramProvider_def empty_env_def truthy_def)
  have c: "twilio_try (TwilioProvider configured_env) failing_api
        (payload_get [(''phone_number'', Some ''1234567890''), (''message'', Some ''Help me'')] ''phone_number'')
        (payload_get [(''phone_number'', Some ''1234567890''), (''message'', Some ''Help me'')] ''message'')
        = Inl TransportError"
    by (simp add: twilio_try_def payload_get_def failing_api_def)
  have d: "telegram_try (TelegramProvider configured_env) failing_post
        (payload_get [(''message'', Some ''Help me'')] ''message'') = Inl TransportError"
    by (simp add: telegram_try_def failing_post_def)
  note unconfigured = no_exception_escapes
    [of "CrisisDetector None" "''Help me''" "TwilioProvider empty_env" failing_api
       "[(''message'', Some ''Help me'')]"
       "TelegramProvider empty_env" failing_post TransportError
       empty_env "''Rishabh''" "''Test Reason''" "''Pune''" "''Help me''"]
  note sms_fails = no_exception_escapes
    [of "CrisisDetector None" "''Help me''" "TwilioProvider configured_env" failing_api
       "[(''phone_number'', Some ''1234567890''), (''message'', Some ''Help me'')]"
       "TelegramProvider configured_env" failing_post TransportError
       configured_env "''Rishabh''" "''Test Reason''" "''Pune''" "''Help me''"]
  note telegram_fails = no_exception_escapes
    [of "CrisisDetector None" "''Help me''" "TwilioProvider configured_env" failing_api
       "[(''message'', Some ''Help me'')]"
       "TelegramProvider configured_env" failing_post TransportError
       configured_env "''Rishabh''" "''Test Reason''" "''Pune''" "''Help me''"]
  have 1: "twilio_send_alert (TwilioProvider empty_env) failing_api [(''message'', Some ''Help me'')] = Inr False"
    using unconfigured a by blast
  have 2: "telegram_send_alert (TelegramProvider empty_env) failing_post [(''message'', Some ''Help me'')] = Inr False"
    using unconfigured b by blast
  have 3: "twilio_send_alert (TwilioProvider configured_env) failing_api
        [(''phone_number'', Some ''1234567890''), (''message'', Some ''Help me'')] = Inr False"
    using sms_fails c by blast
  have 4: "telegram_send_alert (TelegramProvider configured_env) failing_post
        [(''message'', Some ''Help me'')] = Inr False"
    using telegram_fails d by blast
  from a b c d 1 2 3 4 show ?thesis by blast
qed

section \<open>The embedding cache\<close>











end
